theory Spec2Isabelle
  imports Complex_Main "HOL-Library.Multiset"
begin

section \<open>JavaScript numbers\<close>

subsection \<open>Coordinates: IEEE 754 doubles\<close>

text \<open>
  The coordinates of a keypoint are JavaScript numbers, that is binary64 values. A finite
  double is modelled by the real number it denotes (the two zeros are one value), next to
  the two infinities and NaN; \<open>Finite x\<close> stands for a double only when \<open>x\<close> is one, as
  every result of the operations below is. An operation computes the exact result and
  rounds it to the nearest double, ties to the even significand, the one rounding mode
  JavaScript has.
\<close>

datatype double = Finite real | PosInf | NegInf | NaN

text \<open>The position of the leading bit of a positive natural number.\<close>

fun log2_floor :: "nat \<Rightarrow> nat" where
  "log2_floor n = (if n < 2 then 0 else Suc (log2_floor (n div 2)))"

declare log2_floor.simps [simp del]

text \<open>For a positive real \<open>a\<close>, the exponent \<open>e\<close> with \<open>2^e \<le> a < 2^(e+1)\<close>.\<close>

definition binade :: "real \<Rightarrow> int" where
  "binade a =
     (if 1 \<le> a then int (log2_floor (nat \<lfloor>a\<rfloor>))
      else - int (log2_floor (nat (\<lceil>1 / a\<rceil> - 1))) - 1)"

definition round_half_even :: "real \<Rightarrow> int" where
  "round_half_even q =
     (let f = \<lfloor>q\<rfloor>
      in if q - of_int f < 1 / 2 then f
         else if 1 / 2 < q - of_int f then f + 1
         else if even f then f else f + 1)"

text \<open>
  Rounding a real to binary64: 53 significant bits, so the unit in the last place of the
  binade \<open>e\<close> is \<open>2^(e-52)\<close>; below the binade -1022 the numbers are subnormal and keep
  the unit \<open>2^(-1074)\<close>; a rounded magnitude of \<open>2^1024\<close> or more overflows to an infinity.
\<close>

definition fl :: "real \<Rightarrow> double" where
  "fl x =
     (if x = 0 then Finite 0
      else
        let a = \<bar>x\<bar>;
            e = max (binade a) (- 1022);
            ulp = 2 powi (e - 52);
            v = of_int (round_half_even (a / ulp)) * ulp
        in if 2 powi 1024 \<le> v then (if 0 < x then PosInf else NegInf)
           else Finite (if 0 < x then v else - v))"

fun dneg :: "double \<Rightarrow> double" where
  "dneg (Finite a) = Finite (- a)"
| "dneg PosInf = NegInf"
| "dneg NegInf = PosInf"
| "dneg NaN = NaN"

text \<open>\<open>+\<close> on numbers.\<close>

fun dadd :: "double \<Rightarrow> double \<Rightarrow> double" where
  "dadd (Finite a) (Finite b) = fl (a + b)"
| "dadd NaN _ = NaN"
| "dadd _ NaN = NaN"
| "dadd PosInf NegInf = NaN"
| "dadd NegInf PosInf = NaN"
| "dadd PosInf _ = PosInf"
| "dadd NegInf _ = NegInf"
| "dadd (Finite a) d = d"

text \<open>\<open>-\<close> on numbers.\<close>

definition dsub :: "double \<Rightarrow> double \<Rightarrow> double" where
  "dsub c d = dadd c (dneg d)"

text \<open>\<open>*\<close> on numbers: an infinity times zero is NaN.\<close>

fun dmul :: "double \<Rightarrow> double \<Rightarrow> double" where
  "dmul (Finite a) (Finite b) = fl (a * b)"
| "dmul NaN _ = NaN"
| "dmul _ NaN = NaN"
| "dmul (Finite a) d = (if a = 0 then NaN else if 0 < a then d else dneg d)"
| "dmul d (Finite b) = (if b = 0 then NaN else if 0 < b then d else dneg d)"
| "dmul PosInf d = d"
| "dmul NegInf d = dneg d"

text \<open>
  \<open>/\<close> on numbers. A zero divisor is taken as the positive zero, the sign of zero not
  being modelled.
\<close>

fun ddiv :: "double \<Rightarrow> double \<Rightarrow> double" where
  "ddiv (Finite a) (Finite b) =
     (if b = 0 then (if a = 0 then NaN else if 0 < a then PosInf else NegInf) else fl (a / b))"
| "ddiv NaN _ = NaN"
| "ddiv _ NaN = NaN"
| "ddiv (Finite a) d = Finite 0"
| "ddiv d (Finite b) = (if 0 \<le> b then d else dneg d)"
| "ddiv d d' = NaN"

text \<open>A real is exact when it is a double: rounding leaves it as it is.\<close>

definition exact :: "real \<Rightarrow> bool" where
  "exact x \<longleftrightarrow> fl x = Finite x"

subsection \<open>Pose ids: numbers that are only printed\<close>

text \<open>
  The id of a pose is a JavaScript number too, but the code does one thing with it: it
  prints it. \<open>Whole n\<close> is an integer that \<open>toString\<close> prints as plain decimal digits, as
  it does every integer below 1e21 in absolute value. \<open>Other txt\<close> is any other number
  (a fraction such as 1.5 or 1e-7, an integer from 1e21 on, NaN, an infinity), given by
  the text that \<open>toString\<close> prints for it.
\<close>

datatype id_number = Whole int | Other string

section \<open>Poses and the geometry helpers of PosesTracker.js\<close>

text \<open>A keypoint of a detected body: a named point with a confidence score.\<close>

record Keypoint =
  kp_name :: string
  kp_x :: double
  kp_y :: double
  kp_score :: double

text \<open>
  A pose as \<open>seen\<close> and the helpers read it: the optional detector-local \<open>id\<close>
  (\<open>None\<close> when the property is undefined or null) and the keypoints.
\<close>

record Pose =
  pose_id :: "id_number option"
  keypoints :: "Keypoint list"

record Point =
  pt_x :: double
  pt_y :: double

text \<open>The frozen object \<open>{a: ptA, b: ptB}\<close> that \<open>lineBetween\<close> returns.\<close>

record Line =
  line_a :: Keypoint
  line_b :: Keypoint

text \<open>
  Modelled from the spec: \<open>Coco.getKeypoint\<close> (../lib/Coco.js) is not among the sources.
  The spec calls it a keypoint lookup by name that may find nothing.
\<close>

definition getKeypoint :: "Pose \<Rightarrow> string \<Rightarrow> Keypoint option" where
  "getKeypoint pose nm = find (\<lambda>k. kp_name k = nm) (keypoints pose)"

text \<open>
  Modelled from the spec: \<open>Points.sum\<close> and \<open>Points.divide\<close> (ixfx/geometry.js) are not
  among the sources. The spec has the first add two points componentwise and the second
  divide a point's coordinates by the two given numbers.
\<close>

definition Points_sum :: "Point \<Rightarrow> Point \<Rightarrow> Point" where
  "Points_sum p q = \<lparr> pt_x = dadd (pt_x p) (pt_x q), pt_y = dadd (pt_y p) (pt_y q) \<rparr>"

definition Points_divide :: "Point \<Rightarrow> double \<Rightarrow> double \<Rightarrow> Point" where
  "Points_divide p dx dy = \<lparr> pt_x = ddiv (pt_x p) dx, pt_y = ddiv (pt_y p) dy \<rparr>"

text \<open>\<open>lineBetween\<close>: both lookups are made first, then the two tests in order.\<close>

definition lineBetween :: "Pose \<Rightarrow> string \<Rightarrow> string \<Rightarrow> Line option" where
  "lineBetween pose a b =
     (let ptA = getKeypoint pose a;
          ptB = getKeypoint pose b
      in case ptA of
           None \<Rightarrow> None
         | Some pa \<Rightarrow>
             (case ptB of
                None \<Rightarrow> None
              | Some pb \<Rightarrow> Some \<lparr> line_a = pa, line_b = pb \<rparr>))"

text \<open>
  \<open>roughCenter\<close>. \<open>Lines.interpolate\<close> (ixfx/geometry.js) is not among the sources, and
  the spec says of it only that at amount 0.5 it gives the midpoint of a segment, not by
  which arithmetic; so it is a parameter here, \<open>Lines_interpolate\<close>.
\<close>

definition roughCenter :: "(double \<Rightarrow> Line \<Rightarrow> Point) \<Rightarrow> Pose \<Rightarrow> Point option" where
  "roughCenter Lines_interpolate pose =
     (let a = lineBetween pose ''left_shoulder'' ''right_hip'';
          b = lineBetween pose ''right_shoulder'' ''left_hip''
      in case a of
           None \<Rightarrow> None
         | Some la \<Rightarrow>
             (case b of
                None \<Rightarrow> None
              | Some lb \<Rightarrow>
                  (let halfA = Lines_interpolate (Finite (1 / 2)) la;
                       halfB = Lines_interpolate (Finite (1 / 2)) lb;
                       sum = Points_sum halfA halfB
                   in Some (Points_divide sum (Finite 2) (Finite 2)))))"

text \<open>
  Modelled from the spec: an interpolation to run \<open>roughCenter\<close> with, the linear one,
  \<open>(1 - amount) * a + amount * b\<close> on each coordinate, in the arithmetic of doubles. At
  amount 0.5 it gives the midpoint, up to rounding.
\<close>

definition linear :: "double \<Rightarrow> double \<Rightarrow> double \<Rightarrow> double" where
  "linear amount a b = dadd (dmul (dsub (Finite 1) amount) a) (dmul amount b)"

definition linear_interpolate :: "double \<Rightarrow> Line \<Rightarrow> Point" where
  "linear_interpolate amount line =
     \<lparr> pt_x = linear amount (kp_x (line_a line)) (kp_x (line_b line)),
       pt_y = linear amount (kp_y (line_a line)) (kp_y (line_b line)) \<rparr>"

text \<open>A keypoint with full confidence, for the samples.\<close>

definition kp :: "string \<Rightarrow> real \<Rightarrow> real \<Rightarrow> Keypoint" where
  "kp nm vx vy = \<lparr> kp_name = nm, kp_x = Finite vx, kp_y = Finite vy, kp_score = Finite 1 \<rparr>"

text \<open>A body whose four chest keypoints all lie at \<open>2^1023\<close>, a double below the largest.\<close>

definition huge_pose :: Pose where
  "huge_pose = \<lparr> pose_id = Some (Whole 1),
     keypoints = [kp ''left_shoulder'' (2 ^ 1023) (2 ^ 1023), kp ''right_shoulder'' (2 ^ 1023) (2 ^ 1023),
                  kp ''left_hip'' (2 ^ 1023) (2 ^ 1023), kp ''right_hip'' (2 ^ 1023) (2 ^ 1023)] \<rparr>"

section \<open>The registry of PosesTracker.js\<close>

subsection \<open>Arguments, identifiers and errors\<close>

text \<open>
  The \<open>from\<close> argument of \<open>seen\<close> is declared a string, and the code tests it against
  \<open>undefined\<close> only, so the model keeps the three kinds of value apart. In
  \<open>from + '-' + id\<close> JavaScript turns null into the text \<open>null\<close>.
\<close>

datatype from_arg = FromUndefined | FromNull | FromStr string

fun from_string :: "from_arg \<Rightarrow> string" where
  "from_string FromUndefined = ''undefined''"
| "from_string FromNull = ''null''"
| "from_string (FromStr s) = s"

datatype pose_arg = PoseUndefined | PoseNull | PoseObj Pose

text \<open>
  What a call of \<open>seen\<close> can throw: its two own errors, and the TypeError of reading
  \<open>pose.id\<close> when \<open>pose\<close> is null.
\<close>

datatype error = FromIsUndefined | PoseIsUndefined | TypeError

text \<open>
  \<open>Number.prototype.toString\<close>: decimal digits with a minus sign for a negative number
  when the number is such an integer, and the number's text otherwise.
\<close>

definition digit_char :: "nat \<Rightarrow> char" where
  "digit_char d = ''0123456789'' ! d"

fun nat_digits :: "nat \<Rightarrow> string" where
  "nat_digits n =
     (if n < 10 then [digit_char n] else nat_digits (n div 10) @ [digit_char (n mod 10)])"

declare nat_digits.simps [simp del]

fun Number_toString :: "id_number \<Rightarrow> string" where
  "Number_toString (Whole n) =
     (if n < 0 then CHR ''-'' # nat_digits (nat (- n)) else nat_digits (nat n))"
| "Number_toString (Other txt) = txt"

text \<open>\<open>(pose.id ?? 0).toString()\<close>\<close>

definition pose_id_string :: "Pose \<Rightarrow> string" where
  "pose_id_string pose =
     Number_toString (case pose_id pose of None \<Rightarrow> Whole 0 | Some n \<Rightarrow> n)"

text \<open>\<open>from + '-' + id\<close>, the key of the registry.\<close>

definition make_guid :: "from_arg \<Rightarrow> string \<Rightarrow> string" where
  "make_guid frm pid = from_string frm @ ''-'' @ pid"

subsection \<open>The per-body tracker\<close>

text \<open>
  Modelled from the spec: the class \<open>PoseTracker\<close> (./PoseTracker.js) is not among the
  sources. The spec gives it the immutable \<open>fromId\<close>, \<open>poseId\<close> and \<open>guid\<close> (the two
  identifiers joined by the separator), the most recent pose \<open>last\<close>, and \<open>elapsed\<close>, the
  milliseconds since the most recent \<open>seen\<close>, computed on read. The clock is a parameter:
  every operation that reads the time is given the reading it gets.
\<close>

type_synonym time = int

record PoseTracker =
  fromId :: from_arg
  poseId :: string
  guid :: string
  last_pose :: "Pose option"
  seenAt :: time

definition PoseTracker_new :: "from_arg \<Rightarrow> string \<Rightarrow> PoseTracker" where
  "PoseTracker_new frm pid =
     \<lparr> fromId = frm, poseId = pid, guid = make_guid frm pid, last_pose = None, seenAt = 0 \<rparr>"

definition PoseTracker_seen :: "PoseTracker \<Rightarrow> time \<Rightarrow> Pose \<Rightarrow> PoseTracker" where
  "PoseTracker_seen t now pose = t \<lparr> last_pose := Some pose, seenAt := now \<rparr>"

definition elapsed :: "PoseTracker \<Rightarrow> time \<Rightarrow> int" where
  "elapsed t now = now - seenAt t"

subsection \<open>JavaScript's Map and Set, in insertion order\<close>

definition Map_get :: "('k \<times> 'v) list \<Rightarrow> 'k \<Rightarrow> 'v option" where
  "Map_get m k = map_of m k"

fun Map_set :: "('k \<times> 'v) list \<Rightarrow> 'k \<Rightarrow> 'v \<Rightarrow> ('k \<times> 'v) list" where
  "Map_set [] k v = [(k, v)]"
| "Map_set (e # m) k v = (if fst e = k then (k, v) # m else e # Map_set m k v)"

definition Map_delete :: "('k \<times> 'v) list \<Rightarrow> 'k \<Rightarrow> ('k \<times> 'v) list" where
  "Map_delete m k = filter (\<lambda>e. fst e \<noteq> k) m"

definition Set_add :: "'a list \<Rightarrow> 'a \<Rightarrow> 'a list" where
  "Set_add xs v = (if v \<in> set xs then xs else xs @ [v])"

subsection \<open>State\<close>

text \<open>
  Trackers are objects: the registry, the events and the arrays the enumerations copy all
  hold references to them. A reference is an index into the store \<open>heap\<close>; \<open>new\<close> appends.
  \<open>data\<close> is the private Map in insertion order; \<open>events\<close> lists what the EventTarget
  has dispatched, oldest first, each with its \<open>detail\<close>. The source registers no
  listener, so dispatching does nothing else.
\<close>

type_synonym ref = nat

datatype event = Added ref | Expired ref

record PosesTrackerOptions =
  maxAgeMs :: int
  resetAfterSamples :: int
  sampleLimit :: int
  storeIntermediate :: bool

record PartialOptions =
  given_maxAgeMs :: "int option"
  given_resetAfterSamples :: "int option"
  given_sampleLimit :: "int option"
  given_storeIntermediate :: "bool option"

record PosesTracker =
  data :: "(string \<times> ref) list"
  options :: PosesTrackerOptions
  events :: "event list"
  heap :: "PoseTracker list"

definition or_default :: "'a option \<Rightarrow> 'a \<Rightarrow> 'a" where
  "or_default given d = (case given of None \<Rightarrow> d | Some v \<Rightarrow> v)"

text \<open>The constructor: the defaults, overridden by the options given.\<close>

definition PosesTracker_new :: "PartialOptions \<Rightarrow> PosesTracker" where
  "PosesTracker_new opts =
     \<lparr> data = [],
       options = \<lparr> maxAgeMs = or_default (given_maxAgeMs opts) 10000,
                   resetAfterSamples = or_default (given_resetAfterSamples opts) 0,
                   sampleLimit = or_default (given_sampleLimit opts) 100,
                   storeIntermediate = or_default (given_storeIntermediate opts) False \<rparr>,
       events = [],
       heap = [] \<rparr>"

definition no_options :: PartialOptions where
  "no_options = \<lparr> given_maxAgeMs = None, given_resetAfterSamples = None,
                  given_sampleLimit = None, given_storeIntermediate = None \<rparr>"

definition deref :: "PosesTracker \<Rightarrow> ref \<Rightarrow> PoseTracker" where
  "deref s r = heap s ! r"

text \<open>\<open>tp.seen(pose)\<close> on the tracker object behind a reference.\<close>

definition tracker_seen :: "PosesTracker \<Rightarrow> ref \<Rightarrow> time \<Rightarrow> Pose \<Rightarrow> PosesTracker" where
  "tracker_seen s r now pose = s \<lparr> heap := (heap s) [r := PoseTracker_seen (deref s r) now pose] \<rparr>"

subsection \<open>seen, clear, the expiry scan and size\<close>

text \<open>
  \<open>seen\<close> returns the state it leaves and either the error thrown or the guid returned.
\<close>

definition seen :: "PosesTracker \<Rightarrow> time \<Rightarrow> from_arg \<Rightarrow> pose_arg \<Rightarrow> PosesTracker \<times> (error + string)" where
  "seen s now frm pose =
     (if frm = FromUndefined then (s, Inl FromIsUndefined)
      else case pose of
        PoseUndefined \<Rightarrow> (s, Inl PoseIsUndefined)
      | PoseNull \<Rightarrow> (s, Inl TypeError)
      | PoseObj p \<Rightarrow>
          (let pid = pose_id_string p;
               nsId = make_guid frm pid
           in case Map_get (data s) nsId of
                None \<Rightarrow>
                  (let tp = length (heap s);
                       s1 = s \<lparr> heap := heap s @ [PoseTracker_new frm pid] \<rparr>;
                       s2 = s1 \<lparr> data := Map_set (data s1) nsId tp \<rparr>;
                       s3 = tracker_seen s2 tp now p;
                       s4 = s3 \<lparr> events := events s3 @ [Added tp] \<rparr>
                   in (s4, Inr nsId))
              | Some tp \<Rightarrow> (tracker_seen s tp now p, Inr nsId)))"

definition clear :: "PosesTracker \<Rightarrow> PosesTracker" where
  "clear s = s \<lparr> data := [] \<rparr>"

text \<open>The body of the loop in the timer's callback: delete the key, dispatch the event.\<close>

definition expire_entry :: "PosesTracker \<Rightarrow> string \<times> ref \<Rightarrow> PosesTracker" where
  "expire_entry s entry =
     s \<lparr> data := Map_delete (data s) (fst entry), events := events s @ [Expired (snd entry)] \<rparr>"

text \<open>The callback of \<open>setInterval\<close>, run at clock reading \<open>now\<close>.\<close>

definition expiry_tick :: "PosesTracker \<Rightarrow> time \<Rightarrow> PosesTracker" where
  "expiry_tick s now =
     (let expired = filter (\<lambda>entry. elapsed (deref s (snd entry)) now > maxAgeMs (options s)) (data s)
      in foldl expire_entry s expired)"

definition size_prop :: "PosesTracker \<Rightarrow> nat" where
  "size_prop s = length (data s)"

subsection \<open>Lookups\<close>

definition getTrackerByGuid :: "PosesTracker \<Rightarrow> string \<Rightarrow> ref option" where
  "getTrackerByGuid s gid = Map_get (data s) gid"

text \<open>\<open>this.#data.get(id)?.last\<close>: nothing when there is no tracker, else its \<open>last\<close>.\<close>

definition getValueByGuid :: "PosesTracker \<Rightarrow> string \<Rightarrow> Pose option" where
  "getValueByGuid s gid =
     (case Map_get (data s) gid of None \<Rightarrow> None | Some r \<Rightarrow> last_pose (deref s r))"

definition getTrackerByPoseId :: "PosesTracker \<Rightarrow> string \<Rightarrow> ref option" where
  "getTrackerByPoseId s pid = find (\<lambda>r. poseId (deref s r) = pid) (map snd (data s))"

definition getValueByPoseId :: "PosesTracker \<Rightarrow> string \<Rightarrow> Pose option" where
  "getValueByPoseId s pid =
     (case find (\<lambda>r. poseId (deref s r) = pid) (map snd (data s)) of
        None \<Rightarrow> None
      | Some r \<Rightarrow> last_pose (deref s r))"

subsection \<open>The enumerations, read to the end in one go\<close>

text \<open>
  Each function below is the array that spreading the generator gives when nothing else
  runs in between. \<open>getTrackers\<close>, \<open>getTrackersByAge\<close> and \<open>getSenderIds\<close> are also the
  local array (or set) that the generator builds and then yields from. \<open>getGuids\<close>
  iterates the Map itself and copies nothing; only its reading in one go is modelled.
\<close>

definition getTrackers :: "PosesTracker \<Rightarrow> ref list" where
  "getTrackers s = map snd (data s)"

text \<open>
  \<open>trackers.sort((a,b)=>a.elapsed-b.elapsed)\<close>: the sort of JavaScript arrays is stable,
  and so is \<open>sort_key\<close>. One clock reading serves the whole sort.
\<close>

definition getTrackersByAge :: "PosesTracker \<Rightarrow> time \<Rightarrow> ref list" where
  "getTrackersByAge s now = sort_key (\<lambda>r. elapsed (deref s r) now) (map snd (data s))"

definition getValues :: "PosesTracker \<Rightarrow> Pose option list" where
  "getValues s = map (\<lambda>r. last_pose (deref s r)) (map snd (data s))"

definition getValuesByAge :: "PosesTracker \<Rightarrow> time \<Rightarrow> Pose option list" where
  "getValuesByAge s now = map (\<lambda>r. last_pose (deref s r)) (getTrackersByAge s now)"

definition getFromSender :: "PosesTracker \<Rightarrow> from_arg \<Rightarrow> ref list" where
  "getFromSender s senderId = filter (\<lambda>r. fromId (deref s r) = senderId) (map snd (data s))"

definition getSenderIds :: "PosesTracker \<Rightarrow> from_arg list" where
  "getSenderIds s = foldl (\<lambda>st r. Set_add st (fromId (deref s r))) [] (map snd (data s))"


subsection \<open>Runs of the registry\<close>

datatype action = Seen time from_arg pose_arg | Clear | Tick time

fun apply_action :: "PosesTracker \<Rightarrow> action \<Rightarrow> PosesTracker" where
  "apply_action s (Seen now frm pose) = fst (seen s now frm pose)"
| "apply_action s Clear = clear s"
| "apply_action s (Tick now) = expiry_tick s now"

definition run :: "action list \<Rightarrow> PosesTracker \<Rightarrow> PosesTracker" where
  "run acts s = foldl apply_action s acts"

subsection \<open>The enumerations as generators\<close>

text \<open>
  The enumerations are generator functions. Calling one runs none of its body and reads
  nothing: the body starts at the first \<open>next()\<close>, copies the registry's values into a
  local array there, and yields from that array at each further \<open>next()\<close>. A generator
  object is therefore either not started or yielding from what is left of its array.
  A \<open>next\<close> function takes the registry as it is when \<open>next()\<close> is called and returns
  what is yielded (\<open>None\<close> when the generator is done) and the generator's new state.
\<close>

datatype 'a generator = NotStarted | Yielding "'a list"

fun yield_from :: "'a list \<Rightarrow> 'a option \<times> 'a generator" where
  "yield_from [] = (None, Yielding [])"
| "yield_from (v # vs) = (Some v, Yielding vs)"

text \<open>Calling a generator function, whatever the registry holds at that moment.\<close>

definition call_generator :: "PosesTracker \<Rightarrow> 'a generator" where
  "call_generator s = NotStarted"

definition getTrackers_next :: "PosesTracker \<Rightarrow> ref generator \<Rightarrow> ref option \<times> ref generator" where
  "getTrackers_next s g =
     yield_from (case g of NotStarted \<Rightarrow> getTrackers s | Yielding trackers \<Rightarrow> trackers)"

definition getTrackersByAge_next ::
    "time \<Rightarrow> PosesTracker \<Rightarrow> ref generator \<Rightarrow> ref option \<times> ref generator" where
  "getTrackersByAge_next now s g =
     yield_from (case g of NotStarted \<Rightarrow> getTrackersByAge s now | Yielding trackers \<Rightarrow> trackers)"

text \<open>\<open>getValues\<close> reads \<open>tracker.last\<close> when it yields, not when it copies.\<close>

definition getValues_next ::
    "PosesTracker \<Rightarrow> ref generator \<Rightarrow> Pose option option \<times> ref generator" where
  "getValues_next s g =
     (case yield_from (case g of NotStarted \<Rightarrow> getTrackers s | Yielding vals \<Rightarrow> vals) of
        (None, g') \<Rightarrow> (None, g')
      | (Some tracker, g') \<Rightarrow> (Some (last_pose (deref s tracker)), g'))"

text \<open>\<open>getFromSender\<close> tests \<open>fromId\<close> as its loop reaches each tracker of the array.\<close>

definition getFromSender_next ::
    "from_arg \<Rightarrow> PosesTracker \<Rightarrow> ref generator \<Rightarrow> ref option \<times> ref generator" where
  "getFromSender_next senderId s g =
     yield_from (dropWhile (\<lambda>tracker. fromId (deref s tracker) \<noteq> senderId)
       (case g of NotStarted \<Rightarrow> getTrackers s | Yielding vals \<Rightarrow> vals))"

text \<open>
  \<open>getValuesByAge\<close> loops over \<open>this.getTrackersByAge()\<close>: its first \<open>next()\<close> starts
  that inner generator, so the two share their state.
\<close>

definition getValuesByAge_next ::
    "time \<Rightarrow> PosesTracker \<Rightarrow> ref generator \<Rightarrow> Pose option option \<times> ref generator" where
  "getValuesByAge_next now s g =
     (case getTrackersByAge_next now s g of
        (None, g') \<Rightarrow> (None, g')
      | (Some tracker, g') \<Rightarrow> (Some (last_pose (deref s tracker)), g'))"

definition getSenderIds_next ::
    "PosesTracker \<Rightarrow> from_arg generator \<Rightarrow> from_arg option \<times> from_arg generator" where
  "getSenderIds_next s g =
     yield_from (case g of NotStarted \<Rightarrow> getSenderIds s | Yielding ids \<Rightarrow> ids)"

text \<open>
  Reading a generator while the registry changes: one \<open>next()\<close> per element of the list,
  each followed by the actions of that element. The result is what was yielded, up to the
  end of the generator.
\<close>

fun consume ::
    "(PosesTracker \<Rightarrow> 'g \<Rightarrow> 'y option \<times> 'g) \<Rightarrow> 'g \<Rightarrow> PosesTracker \<Rightarrow> action list list \<Rightarrow> 'y list" where
  "consume nxt g s [] = []"
| "consume nxt g s (acts # rest) =
     (case nxt s g of
        (None, g') \<Rightarrow> []
      | (Some v, g') \<Rightarrow> v # consume nxt g' (run acts s) rest)"

text \<open>
  Spreading a fresh generator into an array while nothing else runs: \<open>next()\<close> until it
  is done, which takes at most one call more than the registry has entries.
\<close>

definition read_all :: "(PosesTracker \<Rightarrow> 'a generator \<Rightarrow> 'y option \<times> 'a generator) \<Rightarrow> PosesTracker \<Rightarrow> 'y list" where
  "read_all nxt s = consume nxt (call_generator s) s (replicate (Suc (length (data s))) [])"

text \<open>The registry at each of those \<open>next()\<close> calls.\<close>

fun states_at :: "PosesTracker \<Rightarrow> action list list \<Rightarrow> PosesTracker list" where
  "states_at s [] = []"
| "states_at s (acts # rest) = s # states_at (run acts s) rest"

subsection \<open>What every registry satisfies\<close>

text \<open>
  Keys are unique, no tracker is registered twice, every registered reference points into
  the store at a tracker that carries its key as guid and has seen a pose, and every
  tracker's guid is built from its two identifiers.
\<close>

definition wf :: "PosesTracker \<Rightarrow> bool" where
  "wf s \<longleftrightarrow>
     distinct (map fst (data s)) \<and> distinct (map snd (data s)) \<and>
     (\<forall>e \<in> set (data s). snd e < length (heap s) \<and> guid (heap s ! snd e) = fst e \<and>
        last_pose (heap s ! snd e) \<noteq> None) \<and>
     (\<forall>r < length (heap s). guid (heap s ! r) = make_guid (fromId (heap s ! r)) (poseId (heap s ! r)))"

subsection \<open>Sample values\<close>

definition pose_of :: "int \<Rightarrow> real \<Rightarrow> Pose" where
  "pose_of n v = \<lparr> pose_id = Some (Whole n), keypoints = [kp ''nose'' v v] \<rparr>"

definition with_maxAge :: "int \<Rightarrow> PartialOptions" where
  "with_maxAge ms = no_options \<lparr> given_maxAgeMs := Some ms \<rparr>"

text \<open>Two cameras, each reporting a body with id 5, at times 0 and 500.\<close>

definition two_bodies :: PosesTracker where
  "two_bodies = run [Seen 0 (FromStr ''cam1'') (PoseObj (pose_of 5 1)),
                     Seen 500 (FromStr ''cam2'') (PoseObj (pose_of 5 2))]
                  (PosesTracker_new (with_maxAge 1000))"

subsection \<open>Sequences of well-typed calls of seen\<close>

text \<open>A call: the clock reading, the sender and the pose.\<close>

definition seen_calls :: "(time \<times> string \<times> Pose) list \<Rightarrow> action list" where
  "seen_calls cs = map (\<lambda>(t, f, p). Seen t (FromStr f) (PoseObj p)) cs"

definition observed_pairs :: "(time \<times> string \<times> Pose) list \<Rightarrow> (string \<times> string) list" where
  "observed_pairs cs = map (\<lambda>(t, f, p). (f, pose_id_string p)) cs"

definition observed_guids :: "(time \<times> string \<times> Pose) list \<Rightarrow> string list" where
  "observed_guids cs = map (\<lambda>(t, f, p). make_guid (FromStr f) (pose_id_string p)) cs"

text \<open>A pose whose id is the fraction 1.5.\<close>

definition half_id_pose :: Pose where
  "half_id_pose = \<lparr> pose_id = Some (Other ''1.5''), keypoints = [] \<rparr>"

text \<open>Camera 2 reports its body again with a new pose; a third camera reports one.\<close>

definition cam2_again :: action where
  "cam2_again = Seen 600 (FromStr ''cam2'') (PoseObj (pose_of 5 9))"

definition cam3_new :: action where
  "cam3_new = Seen 700 (FromStr ''cam3'') (PoseObj (pose_of 5 3))"

section \<open>The arithmetic of doubles\<close>

text \<open>Rounding at some known values: 0.1 is not a double, and a tie goes to the even side.\<close>

lemma fl_examples:
  "fl (1 / 10) = Finite (3602879701896397 / 36028797018963968)"
  "fl (2 ^ 53 + 3) = Finite (2 ^ 53 + 4)"
  "fl (- 7 / 8) = Finite (- 7 / 8)"
  unfolding fl_def Let_def
  by (simp_all add: binade_def log2_floor.simps round_half_even_def)

text \<open>
  \<open>binade\<close> finds the power of two at or below a positive real, and \<open>fl\<close> returns,
  when it returns a finite value, one within half a unit in the last place of its argument.
\<close>

lemma log2_floor_bounds: "0 < n \<Longrightarrow> 2 ^ log2_floor n \<le> n \<and> n < 2 ^ Suc (log2_floor n)"
proof (induction n rule: log2_floor.induct)
  case (1 n)
  show ?case
  proof (cases "n < 2")
    case True
    then have "n = 1" using 1 by simp
    then show ?thesis by (simp add: log2_floor.simps)
  next
    case False
    then have pos: "0 < n div 2" by simp
    have ih: "2 ^ log2_floor (n div 2) \<le> n div 2 \<and> n div 2 < 2 ^ Suc (log2_floor (n div 2))"
      using 1 False pos by simp
    have eq: "log2_floor n = Suc (log2_floor (n div 2))"
      using False by (subst log2_floor.simps) simp
    define m where "m = (2::nat) ^ log2_floor (n div 2)"
    have "m \<le> n div 2 \<and> n div 2 < 2 * m" using ih by (simp add: m_def)
    then have "2 * m \<le> n \<and> n < 2 * (2 * m)" by arith
    then show ?thesis by (simp add: eq m_def)
  qed
qed

lemma log2_floor_bounds_real:
  assumes "0 < n"
  shows "(2::real) ^ log2_floor n \<le> real n \<and> real n + 1 \<le> 2 ^ Suc (log2_floor n)"
proof -
  have b: "2 ^ log2_floor n \<le> n \<and> Suc n \<le> 2 ^ Suc (log2_floor n)"
    using log2_floor_bounds [OF assms] by simp
  have "real (2 ^ log2_floor n) \<le> real n"
    using b by (intro of_nat_mono) simp
  moreover have "real (Suc n) \<le> real (2 ^ Suc (log2_floor n))"
    using b by (intro of_nat_mono) simp
  ultimately show ?thesis by simp
qed

lemma binade_bounds:
  assumes "0 < a"
  shows "2 powi binade a \<le> a \<and> a < 2 powi (binade a + 1)"
proof (cases "1 \<le> a")
  case True
  define n where "n = nat \<lfloor>a\<rfloor>"
  define k where "k = log2_floor n"
  have n: "0 < n" using True by (simp add: n_def)
  have b: "(2::real) ^ k \<le> real n \<and> real n + 1 \<le> 2 ^ Suc k"
    unfolding k_def using log2_floor_bounds_real [OF n] .
  have rn: "real n = of_int \<lfloor>a\<rfloor>" using True by (simp add: n_def)
  have lo: "real n \<le> a" unfolding rn by simp
  have hi: "a < real n + 1" unfolding rn by linarith
  have l: "(2::real) ^ k \<le> a" using b lo by linarith
  have h: "a < 2 ^ Suc k" using b hi by linarith
  have e: "binade a = int k" using True by (simp add: binade_def n_def k_def)
  have "int k + 1 = int (Suc k)" by simp
  then have p: "(2::real) powi (int k + 1) = 2 ^ Suc k"
    by (simp only: power_int_of_nat)
  have p0: "(2::real) powi (int k) = 2 ^ k"
    by (simp only: power_int_of_nat)
  show ?thesis unfolding e p p0 using l h by blast
next
  case False
  define n where "n = nat (\<lceil>1 / a\<rceil> - 1)"
  define k where "k = log2_floor n"
  have inv: "1 < 1 / a" using False assms by simp
  then have c2: "2 \<le> \<lceil>1 / a\<rceil>" by (simp add: le_ceiling_iff)
  then have n: "0 < n" by (simp add: n_def)
  have b: "(2::real) ^ k \<le> real n \<and> real n + 1 \<le> 2 ^ Suc k"
    unfolding k_def using log2_floor_bounds_real [OF n] .
  have "int n = \<lceil>1 / a\<rceil> - 1" using c2 unfolding n_def by (simp only: nat_0_le diff_ge_0_iff_ge) 
  then have "real_of_int (int n) = of_int (\<lceil>1 / a\<rceil> - 1)" by (simp only:)
  then have rn: "real n = of_int \<lceil>1 / a\<rceil> - 1" by simp
  have lo: "real n < 1 / a" unfolding rn by linarith
  have hi: "1 / a \<le> real n + 1" unfolding rn by simp
  have l: "(2::real) ^ k < 1 / a" using b lo by linarith
  have h: "1 / a \<le> 2 ^ Suc k" using b hi by linarith
  have e: "binade a = - int (Suc k)" using False by (simp add: binade_def n_def k_def)
  have pk: "0 < (2::real) ^ k" and ps: "0 < (2::real) ^ Suc k" by simp_all
  have up: "a < 1 / 2 ^ k"
  proof -
    have "a * 2 ^ k < a * (1 / a)" using l assms by (intro mult_strict_left_mono)
    then have "a * 2 ^ k < 1" using assms by simp
    then show ?thesis using pk by (simp add: pos_less_divide_eq)
  qed
  have dn: "1 / 2 ^ Suc k \<le> a"
  proof -
    have "a * (1 / a) \<le> a * 2 ^ Suc k" using h assms by (intro mult_left_mono) simp_all
    then have "1 \<le> a * 2 ^ Suc k" using assms by simp
    then show ?thesis using ps by (simp add: pos_divide_le_eq)
  qed
  have p1: "(2::real) powi (- int (Suc k)) = 1 / 2 ^ Suc k"
    by (simp only: power_int_minus power_int_of_nat inverse_eq_divide)
  have "- int (Suc k) + 1 = - int k" by simp
  then have p2: "(2::real) powi (- int (Suc k) + 1) = 1 / 2 ^ k"
    by (simp only: power_int_minus power_int_of_nat inverse_eq_divide)
  show ?thesis unfolding e p1 p2 using up dn by blast
qed


lemma round_half_even_nearest: "\<bar>real_of_int (round_half_even q) - q\<bar> \<le> 1 / 2"
  unfolding round_half_even_def Let_def by (auto; linarith)

lemma fl_nearest:
  assumes "fl x = Finite v"
  shows "\<bar>v - x\<bar> \<le> 2 powi (max (binade \<bar>x\<bar>) (- 1022) - 52) / 2"
proof (cases "x = 0")
  case True
  then have "v = 0" using assms by (simp add: fl_def)
  then show ?thesis using True by simp
next
  case False
  define ulp :: real where "ulp = 2 powi (max (binade \<bar>x\<bar>) (- 1022) - 52)"
  define m where "m = round_half_even (\<bar>x\<bar> / ulp)"
  have u: "0 < ulp" by (simp add: ulp_def)
  have v: "v = (if 0 < x then of_int m * ulp else - (of_int m * ulp))"
    using assms False unfolding fl_def Let_def ulp_def [symmetric] m_def [symmetric]
    by (auto split: if_splits)
  have "\<bar>of_int m - \<bar>x\<bar> / ulp\<bar> \<le> 1 / 2"
    unfolding m_def by (rule round_half_even_nearest)
  then have "\<bar>of_int m - \<bar>x\<bar> / ulp\<bar> * ulp \<le> (1 / 2) * ulp"
    using u by (intro mult_right_mono) simp_all
  moreover have "\<bar>of_int m - \<bar>x\<bar> / ulp\<bar> * ulp = \<bar>of_int m * ulp - \<bar>x\<bar>\<bar>"
  proof -
    have "\<bar>of_int m - \<bar>x\<bar> / ulp\<bar> * ulp = \<bar>(of_int m - \<bar>x\<bar> / ulp) * ulp\<bar>"
      using u by (simp add: abs_mult)
    also have "(of_int m - \<bar>x\<bar> / ulp) * ulp = of_int m * ulp - \<bar>x\<bar>"
      using u by (simp add: field_simps)
    finally show ?thesis .
  qed
  ultimately have d: "\<bar>of_int m * ulp - \<bar>x\<bar>\<bar> \<le> ulp / 2" by simp
  have "\<bar>v - x\<bar> = \<bar>of_int m * ulp - \<bar>x\<bar>\<bar>"
    using v False by (cases "0 < x") (simp_all add: abs_minus_commute)
  then show ?thesis using d by (simp add: ulp_def)
qed

lemma fl_half: "fl (1 / 2) = Finite (1 / 2)"
  unfolding fl_def Let_def
  by (simp add: binade_def log2_floor.simps round_half_even_def)

lemma one_minus_half: "dsub (Finite 1) (Finite (1 / 2)) = Finite (1 / 2)"
  using fl_half by (simp add: dsub_def)

lemma log2_floor_pow2: "log2_floor (2 ^ n) = n"
proof (induction n)
  case 0
  show ?case by (simp add: log2_floor.simps)
next
  case (Suc n)
  have "log2_floor (2 ^ Suc n) = Suc (log2_floor (2 ^ Suc n div 2))"
    by (subst log2_floor.simps) simp
  then show ?case using Suc by simp
qed

lemma binade_pow2: "binade (2 ^ n) = int n"
proof -
  have "\<lfloor>(2::real) ^ n\<rfloor> = 2 ^ n"
    by (metis floor_of_int of_int_numeral of_int_power)
  then show ?thesis
    by (simp add: binade_def log2_floor_pow2 nat_power_eq)
qed

lemma fl_pow2: "fl (2 ^ n) = (if n < 1024 then Finite (2 ^ n) else PosInf)"
proof -
  have a: "\<bar>(2::real) ^ n\<bar> = 2 ^ n" and z: "((2::real) ^ n = 0) = False"
    and p: "(0 < (2::real) ^ n) = True"
    by simp_all
  have e: "max (int n) (- 1022) = int n"
    by simp
  have q: "(2::real) ^ n / 2 powi (int n - 52) = 2 ^ 52"
    by (simp add: power_int_diff)
  have r: "real_of_int (round_half_even (2 ^ 52)) = 2 ^ 52"
    by (simp add: round_half_even_def)
  have v: "(2::real) ^ 52 * 2 powi (int n - 52) = 2 ^ n"
    by (simp add: power_int_diff)
  have "(2::real) powi 1024 = 2 ^ 1024"
    by (simp only: power_int_numeral)
  moreover have "((2::real) ^ 1024 \<le> 2 ^ n) = (1024 \<le> n)"
    by (rule power_increasing_iff) simp
  ultimately have o: "((2::real) powi 1024 \<le> 2 ^ n) = (\<not> n < 1024)"
    by (simp only: not_less)
  show ?thesis
    unfolding fl_def Let_def a z p binade_pow2 e q r v o
    by (simp only: if_False if_True if_not_P if_P split: if_split) simp
qed

lemma half_of_huge: "dmul (Finite (1 / 2)) (Finite (2 ^ 1023)) = Finite (2 ^ 1022)"
proof -
  have "(1 / 2) * (2::real) ^ 1023 = 2 ^ 1022" by simp
  then have "dmul (Finite (1 / 2)) (Finite (2 ^ 1023)) = fl (2 ^ 1022)"
    by (simp only: dmul.simps)
  then show ?thesis by (simp only: fl_pow2) simp
qed

lemma huge_midpoint: "linear (Finite (1 / 2)) (Finite (2 ^ 1023)) (Finite (2 ^ 1023)) = Finite (2 ^ 1023)"
proof -
  have "(2::real) ^ 1022 + 2 ^ 1022 = 2 ^ 1023" by simp
  then have "dadd (Finite (2 ^ 1022)) (Finite (2 ^ 1022)) = fl (2 ^ 1023)"
    by (simp only: dadd.simps)
  also have "\<dots> = Finite (2 ^ 1023)" by (simp only: fl_pow2) simp
  finally show ?thesis
    unfolding linear_def one_minus_half half_of_huge .
qed

lemma huge_sum: "dadd (Finite (2 ^ 1023)) (Finite (2 ^ 1023)) = PosInf"
proof -
  have "(2::real) ^ 1023 + 2 ^ 1023 = 2 ^ 1024" by simp
  then have "dadd (Finite (2 ^ 1023)) (Finite (2 ^ 1023)) = fl (2 ^ 1024)"
    by (simp only: dadd.simps)
  also have "\<dots> = PosInf" by (simp only: fl_pow2) simp
  finally show ?thesis .
qed

section \<open>The geometry helpers\<close>

lemma lineBetween_None_left: "getKeypoint pose a = None \<Longrightarrow> lineBetween pose a b = None"
  by (simp add: lineBetween_def)

lemma lineBetween_None_right: "getKeypoint pose b = None \<Longrightarrow> lineBetween pose a b = None"
  by (simp add: lineBetween_def split: option.splits)

lemma lineBetween_Some:
  "getKeypoint pose a = Some pa \<Longrightarrow> getKeypoint pose b = Some pb \<Longrightarrow>
   lineBetween pose a b = Some \<lparr> line_a = pa, line_b = pb \<rparr>"
  by (simp add: lineBetween_def)

text \<open>
  C8, as amended. If one of left_shoulder, right_hip, right_shoulder, left_hip is missing
  from the pose, \<open>roughCenter\<close> returns nothing. If all four are there, and
  \<open>Lines.interpolate\<close> at 0.5 returns finite points for the segments
  left_shoulder-right_hip and right_shoulder-left_hip, and neither adding these two points
  nor halving the sum rounds or overflows, then \<open>roughCenter\<close> returns exactly their
  componentwise mean. This holds whatever \<open>Lines.interpolate\<close> computes.
\<close>

theorem roughCenter_mean_when_exact:
  "(getKeypoint pose ''left_shoulder'' = None \<or> getKeypoint pose ''right_hip'' = None \<or>
    getKeypoint pose ''right_shoulder'' = None \<or> getKeypoint pose ''left_hip'' = None
      \<longrightarrow> roughCenter Lines_interpolate pose = None) \<and>
   (getKeypoint pose ''left_shoulder'' = Some ls \<and> getKeypoint pose ''right_hip'' = Some rh \<and>
    getKeypoint pose ''right_shoulder'' = Some rs \<and> getKeypoint pose ''left_hip'' = Some lh \<and>
    Lines_interpolate (Finite (1 / 2)) \<lparr> line_a = ls, line_b = rh \<rparr>
      = \<lparr> pt_x = Finite x1, pt_y = Finite y1 \<rparr> \<and>
    Lines_interpolate (Finite (1 / 2)) \<lparr> line_a = rs, line_b = lh \<rparr>
      = \<lparr> pt_x = Finite x2, pt_y = Finite y2 \<rparr> \<and>
    exact (x1 + x2) \<and> exact ((x1 + x2) / 2) \<and> exact (y1 + y2) \<and> exact ((y1 + y2) / 2)
      \<longrightarrow> roughCenter Lines_interpolate pose
            = Some \<lparr> pt_x = Finite ((x1 + x2) / 2), pt_y = Finite ((y1 + y2) / 2) \<rparr>)"
proof (intro conjI impI)
  assume "getKeypoint pose ''left_shoulder'' = None \<or> getKeypoint pose ''right_hip'' = None \<or>
    getKeypoint pose ''right_shoulder'' = None \<or> getKeypoint pose ''left_hip'' = None"
  then have "lineBetween pose ''left_shoulder'' ''right_hip'' = None \<or>
             lineBetween pose ''right_shoulder'' ''left_hip'' = None"
    by (auto simp: lineBetween_None_left lineBetween_None_right)
  then show "roughCenter Lines_interpolate pose = None"
    by (auto simp: roughCenter_def Let_def split: option.splits)
next
  assume all: "getKeypoint pose ''left_shoulder'' = Some ls \<and>
    getKeypoint pose ''right_hip'' = Some rh \<and>
    getKeypoint pose ''right_shoulder'' = Some rs \<and> getKeypoint pose ''left_hip'' = Some lh \<and>
    Lines_interpolate (Finite (1 / 2)) \<lparr> line_a = ls, line_b = rh \<rparr>
      = \<lparr> pt_x = Finite x1, pt_y = Finite y1 \<rparr> \<and>
    Lines_interpolate (Finite (1 / 2)) \<lparr> line_a = rs, line_b = lh \<rparr>
      = \<lparr> pt_x = Finite x2, pt_y = Finite y2 \<rparr> \<and>
    exact (x1 + x2) \<and> exact ((x1 + x2) / 2) \<and> exact (y1 + y2) \<and> exact ((y1 + y2) / 2)"
  have a: "lineBetween pose ''left_shoulder'' ''right_hip'' = Some \<lparr> line_a = ls, line_b = rh \<rparr>"
    using all by (simp add: lineBetween_Some)
  have b: "lineBetween pose ''right_shoulder'' ''left_hip'' = Some \<lparr> line_a = rs, line_b = lh \<rparr>"
    using all by (simp add: lineBetween_Some)
  have x: "ddiv (dadd (Finite x1) (Finite x2)) (Finite 2) = Finite ((x1 + x2) / 2)"
    using all by (simp add: exact_def)
  have y: "ddiv (dadd (Finite y1) (Finite y2)) (Finite 2) = Finite ((y1 + y2) / 2)"
    using all by (simp add: exact_def)
  show "roughCenter Lines_interpolate pose
      = Some \<lparr> pt_x = Finite ((x1 + x2) / 2), pt_y = Finite ((y1 + y2) / 2) \<rparr>"
    using all x y
    by (simp add: roughCenter_def a b Let_def Points_sum_def Points_divide_def)
qed

lemma exact_samples: "exact 0" "exact 2" "exact 4" "exact 8"
  unfolding exact_def fl_def Let_def
  by (simp_all add: binade_def log2_floor.simps round_half_even_def)

lemma linear_samples:
  "linear (Finite (1 / 2)) (Finite 0) (Finite 4) = Finite 2"
  "linear (Finite (1 / 2)) (Finite 0) (Finite 8) = Finite 4"
  "linear (Finite (1 / 2)) (Finite 4) (Finite 0) = Finite 2"
  using exact_samples by (simp_all add: linear_def one_minus_half exact_def)

theorem roughCenter_mean_when_exact_witness:
  "roughCenter linear_interpolate \<lparr> pose_id = Some (Whole 1),
       keypoints = [kp ''left_shoulder'' 0 0, kp ''right_shoulder'' 4 0,
                    kp ''right_hip'' 4 8] \<rparr> = None \<and>
   roughCenter linear_interpolate \<lparr> pose_id = Some (Whole 1),
       keypoints = [kp ''left_shoulder'' 0 0, kp ''right_shoulder'' 4 0,
                    kp ''left_hip'' 0 8, kp ''right_hip'' 4 8] \<rparr>
     = Some \<lparr> pt_x = Finite 2, pt_y = Finite 4 \<rparr>"
proof -
  let ?p = "\<lparr> pose_id = Some (Whole 1),
       keypoints = [kp ''left_shoulder'' 0 0, kp ''right_shoulder'' 4 0,
                    kp ''right_hip'' 4 8] \<rparr>"
  let ?q = "\<lparr> pose_id = Some (Whole 1),
       keypoints = [kp ''left_shoulder'' 0 0, kp ''right_shoulder'' 4 0,
                    kp ''left_hip'' 0 8, kp ''right_hip'' 4 8] \<rparr>"
  have missing: "getKeypoint ?p ''left_hip'' = None"
    by (simp add: getKeypoint_def kp_def)
  have present: "getKeypoint ?q ''left_shoulder'' = Some (kp ''left_shoulder'' 0 0) \<and>
    getKeypoint ?q ''right_hip'' = Some (kp ''right_hip'' 4 8) \<and>
    getKeypoint ?q ''right_shoulder'' = Some (kp ''right_shoulder'' 4 0) \<and>
    getKeypoint ?q ''left_hip'' = Some (kp ''left_hip'' 0 8)"
    by (simp add: getKeypoint_def kp_def)
  have mids: "linear_interpolate (Finite (1 / 2))
        \<lparr> line_a = kp ''left_shoulder'' 0 0, line_b = kp ''right_hip'' 4 8 \<rparr>
      = \<lparr> pt_x = Finite 2, pt_y = Finite 4 \<rparr> \<and>
    linear_interpolate (Finite (1 / 2))
        \<lparr> line_a = kp ''right_shoulder'' 4 0, line_b = kp ''left_hip'' 0 8 \<rparr>
      = \<lparr> pt_x = Finite 2, pt_y = Finite 4 \<rparr>"
    by (simp add: linear_interpolate_def kp_def linear_samples)
  have steps: "exact (2 + 2) \<and> exact ((2 + 2) / 2) \<and> exact (4 + 4) \<and> exact ((4 + 4) / 2)"
    using exact_samples by simp
  have one: "roughCenter linear_interpolate ?p = None"
    using roughCenter_mean_when_exact [of ?p linear_interpolate] missing by blast
  have two: "roughCenter linear_interpolate ?q
      = Some \<lparr> pt_x = Finite ((2 + 2) / 2), pt_y = Finite ((4 + 4) / 2) \<rparr>"
    using roughCenter_mean_when_exact [of ?q linear_interpolate "kp ''left_shoulder'' 0 0"
        "kp ''right_hip'' 4 8" "kp ''right_shoulder'' 4 0" "kp ''left_hip'' 0 8" 2 4 2 4]
      present mids steps
    by blast
  show ?thesis using one two by simp
qed

text \<open>
  C8 as stated fails: with the four keypoints at \<open>2^1023\<close> each midpoint is that same point,
  the sum of the two midpoints overflows, and \<open>roughCenter\<close> returns the point at infinity,
  although the mean of the midpoints is \<open>2^1023\<close>, a double.
\<close>

theorem roughCenter_overflow_counterexample:
  "roughCenter linear_interpolate huge_pose = Some \<lparr> pt_x = PosInf, pt_y = PosInf \<rparr> \<and>
   linear_interpolate (Finite (1 / 2))
       \<lparr> line_a = kp ''left_shoulder'' (2 ^ 1023) (2 ^ 1023),
         line_b = kp ''right_hip'' (2 ^ 1023) (2 ^ 1023) \<rparr>
     = \<lparr> pt_x = Finite (2 ^ 1023), pt_y = Finite (2 ^ 1023) \<rparr> \<and>
   linear_interpolate (Finite (1 / 2))
       \<lparr> line_a = kp ''right_shoulder'' (2 ^ 1023) (2 ^ 1023),
         line_b = kp ''left_hip'' (2 ^ 1023) (2 ^ 1023) \<rparr>
     = \<lparr> pt_x = Finite (2 ^ 1023), pt_y = Finite (2 ^ 1023) \<rparr> \<and>
   exact (2 ^ 1023)"
proof -
  have k: "getKeypoint huge_pose ''left_shoulder'' = Some (kp ''left_shoulder'' (2 ^ 1023) (2 ^ 1023))"
    "getKeypoint huge_pose ''right_hip'' = Some (kp ''right_hip'' (2 ^ 1023) (2 ^ 1023))"
    "getKeypoint huge_pose ''right_shoulder'' = Some (kp ''right_shoulder'' (2 ^ 1023) (2 ^ 1023))"
    "getKeypoint huge_pose ''left_hip'' = Some (kp ''left_hip'' (2 ^ 1023) (2 ^ 1023))"
    unfolding getKeypoint_def huge_pose_def kp_def by simp_all
  have l: "linear_interpolate (Finite (1 / 2))
      \<lparr> line_a = kp n1 (2 ^ 1023) (2 ^ 1023), line_b = kp n2 (2 ^ 1023) (2 ^ 1023) \<rparr>
      = \<lparr> pt_x = Finite (2 ^ 1023), pt_y = Finite (2 ^ 1023) \<rparr>" for n1 n2
    unfolding linear_interpolate_def kp_def
    by (simp only: Keypoint.simps Line.simps huge_midpoint)
  have c: "roughCenter linear_interpolate huge_pose = Some \<lparr> pt_x = PosInf, pt_y = PosInf \<rparr>"
    unfolding roughCenter_def lineBetween_def Let_def k option.case l Points_sum_def
      Points_divide_def Point.simps huge_sum
    by (simp only: ddiv.simps) simp
  have x: "exact (2 ^ 1023)"
    unfolding exact_def by (simp only: fl_pow2) simp
  show ?thesis using c l x by (simp only: simp_thms)
qed

section \<open>The registry: maps, seen, the expiry scan and the invariant\<close>

lemma Map_get_None_iff: "Map_get m k = None \<longleftrightarrow> k \<notin> fst ` set m"
  by (simp add: Map_get_def map_of_eq_None_iff)

lemma Map_set_fresh: "k \<notin> fst ` set m \<Longrightarrow> Map_set m k v = m @ [(k, v)]"
  by (induction m) auto

lemma Map_get_Some_mem: "Map_get m k = Some v \<Longrightarrow> (k, v) \<in> set m"
  by (simp add: Map_get_def map_of_SomeD)

lemma Map_get_append_fresh:
  "Map_get (m @ [(k, v)]) k' = (case Map_get m k' of Some w \<Rightarrow> Some w | None \<Rightarrow> if k' = k then Some v else None)"
  by (auto simp: Map_get_def map_add_def split: option.splits)

lemma seen_new:
  assumes "frm \<noteq> FromUndefined"
    and "Map_get (data s) (make_guid frm (pose_id_string p)) = None"
  shows "seen s now frm (PoseObj p) =
     (s \<lparr> data := data s @ [(make_guid frm (pose_id_string p), length (heap s))],
          events := events s @ [Added (length (heap s))],
          heap := heap s @ [PoseTracker_seen (PoseTracker_new frm (pose_id_string p)) now p] \<rparr>,
      Inr (make_guid frm (pose_id_string p)))"
proof -
  have fresh: "make_guid frm (pose_id_string p) \<notin> fst ` set (data s)"
    using assms(2) by (simp add: Map_get_None_iff)
  show ?thesis
    using assms(1)
    by (simp add: seen_def assms(2) Let_def tracker_seen_def deref_def Map_set_fresh [OF fresh])
qed

lemma seen_known:
  assumes "frm \<noteq> FromUndefined"
    and "Map_get (data s) (make_guid frm (pose_id_string p)) = Some r"
  shows "seen s now frm (PoseObj p) =
     (s \<lparr> heap := (heap s) [r := PoseTracker_seen (heap s ! r) now p] \<rparr>,
      Inr (make_guid frm (pose_id_string p)))"
  using assms by (simp add: seen_def Let_def tracker_seen_def deref_def)

lemma seen_failed: "snd (seen s now frm pose) = Inl e \<Longrightarrow> fst (seen s now frm pose) = s"
  by (auto simp: seen_def Let_def split: pose_arg.splits option.splits if_splits)

lemma wf_new: "wf (PosesTracker_new opts)"
  by (simp add: wf_def PosesTracker_new_def)

lemma wf_clear: "wf s \<Longrightarrow> wf (clear s)"
  by (simp add: wf_def clear_def)

lemma wf_seen_new:
  assumes "wf s" "frm \<noteq> FromUndefined" "Map_get (data s) (make_guid frm (pose_id_string p)) = None"
  shows "wf (fst (seen s now frm (PoseObj p)))"
proof -
  have fresh: "make_guid frm (pose_id_string p) \<notin> fst ` set (data s)"
    using assms(3) by (simp add: Map_get_None_iff)
  have refs: "\<forall>e \<in> set (data s). snd e < length (heap s)"
    using assms(1) by (simp add: wf_def)
  then have newref: "length (heap s) \<notin> snd ` set (data s)" by auto
  show ?thesis
    using assms(1) fresh newref
    by (auto simp: seen_new [OF assms(2,3)] wf_def nth_append PoseTracker_seen_def PoseTracker_new_def)
qed

lemma wf_seen_known:
  assumes "wf s" "frm \<noteq> FromUndefined" "Map_get (data s) (make_guid frm (pose_id_string p)) = Some r"
  shows "wf (fst (seen s now frm (PoseObj p)))"
proof -
  have "(make_guid frm (pose_id_string p), r) \<in> set (data s)"
    using assms(3) by (rule Map_get_Some_mem)
  then have r: "r < length (heap s)"
    using assms(1) by (auto simp: wf_def)
  show ?thesis
    using assms(1) r
    by (auto simp: seen_known [OF assms(2,3)] wf_def nth_list_update PoseTracker_seen_def)
qed

lemma wf_seen: "wf s \<Longrightarrow> wf (fst (seen s now frm pose))"
proof (cases "\<exists>e. snd (seen s now frm pose) = Inl e")
  case True
  then show "wf s \<Longrightarrow> ?thesis" using seen_failed by metis
next
  case False
  assume w: "wf s"
  from False obtain p where p: "pose = PoseObj p" and f: "frm \<noteq> FromUndefined"
    by (cases pose; cases "frm = FromUndefined") (auto simp: seen_def)
  show ?thesis
  proof (cases "Map_get (data s) (make_guid frm (pose_id_string p))")
    case None
    then show ?thesis using wf_seen_new [OF w f] p by simp
  next
    case (Some r)
    then show ?thesis using wf_seen_known [OF w f] p by simp
  qed
qed


lemma foldl_expire_entry:
  "foldl expire_entry s xs =
     s \<lparr> data := filter (\<lambda>e. fst e \<notin> fst ` set xs) (data s),
          events := events s @ map (\<lambda>e. Expired (snd e)) xs \<rparr>"
proof (induction xs arbitrary: s)
  case Nil
  show ?case by simp
next
  case (Cons x xs)
  have "foldl expire_entry s (x # xs) = foldl expire_entry (expire_entry s x) xs"
    by simp
  also have "\<dots> = (expire_entry s x)
      \<lparr> data := filter (\<lambda>e. fst e \<notin> fst ` set xs) (data (expire_entry s x)),
        events := events (expire_entry s x) @ map (\<lambda>e. Expired (snd e)) xs \<rparr>"
    by (rule Cons.IH)
  also have "\<dots> = s \<lparr> data := filter (\<lambda>e. fst e \<notin> fst ` set (x # xs)) (data s),
      events := events s @ map (\<lambda>e. Expired (snd e)) (x # xs) \<rparr>"
    by (simp add: expire_entry_def Map_delete_def conj_commute)
  finally show ?case .
qed

lemma keys_of_filtered:
  assumes "distinct (map fst m)"
  shows "filter (\<lambda>e. fst e \<notin> fst ` set (filter P m)) m = filter (\<lambda>e. \<not> P e) m"
proof (rule filter_cong [OF refl])
  fix e assume e: "e \<in> set m"
  have "fst e \<in> fst ` set (filter P m) \<longleftrightarrow> P e"
  proof
    assume "fst e \<in> fst ` set (filter P m)"
    then obtain e' where e': "e' \<in> set m" "P e'" "fst e' = fst e" by auto
    then have "e' = e" using assms e by (metis eq_key_imp_eq_value prod.collapse)
    then show "P e" using e' by simp
  next
    assume "P e" then show "fst e \<in> fst ` set (filter P m)" using e by auto
  qed
  then show "(fst e \<notin> fst ` set (filter P m)) = (\<not> P e)" by simp
qed

lemma expiry_tick_eq:
  assumes "distinct (map fst (data s))"
  shows "expiry_tick s now =
     s \<lparr> data := filter (\<lambda>e. \<not> maxAgeMs (options s) < elapsed (deref s (snd e)) now) (data s),
          events := events s @ map (\<lambda>e. Expired (snd e))
            (filter (\<lambda>e. maxAgeMs (options s) < elapsed (deref s (snd e)) now) (data s)) \<rparr>"
  unfolding expiry_tick_def Let_def foldl_expire_entry keys_of_filtered [OF assms] ..

lemma wf_tick: 
  assumes "wf s" shows "wf (expiry_tick s now)"
proof -
  have d: "distinct (map fst (data s))" using assms by (simp add: wf_def)
  show ?thesis
    using assms by (auto simp: expiry_tick_eq [OF d] wf_def distinct_map_filter)
qed

lemma wf_apply_action: "wf s \<Longrightarrow> wf (apply_action s a)"
  by (cases a) (simp_all add: wf_seen wf_clear wf_tick)

lemma wf_run: "wf s \<Longrightarrow> wf (run acts s)"
  unfolding run_def by (induction acts arbitrary: s) (simp_all add: wf_apply_action)

lemma wf_reachable: "wf (run acts (PosesTracker_new opts))"
  by (simp add: wf_run wf_new)

section \<open>Evaluating the samples\<close>

lemmas eval_defs = run_def seen_def Let_def Map_get_def make_guid_def pose_id_string_def
  Number_toString.simps nat_digits.simps digit_char_def PosesTracker_new_def no_options_def
  or_default_def tracker_seen_def deref_def PoseTracker_new_def PoseTracker_seen_def
  pose_of_def with_maxAge_def kp_def

lemma two_bodies_eq: "two_bodies =
  \<lparr> data = [(''cam1-5'', 0), (''cam2-5'', 1)],
    options = \<lparr> maxAgeMs = 1000, resetAfterSamples = 0, sampleLimit = 100, storeIntermediate = False \<rparr>,
    events = [Added 0, Added 1],
    heap = [\<lparr> fromId = FromStr ''cam1'', poseId = ''5'', guid = ''cam1-5'',
              last_pose = Some (pose_of 5 1), seenAt = 0 \<rparr>,
            \<lparr> fromId = FromStr ''cam2'', poseId = ''5'', guid = ''cam2-5'',
              last_pose = Some (pose_of 5 2), seenAt = 500 \<rparr>] \<rparr>"
  by (simp add: two_bodies_def eval_defs)

section \<open>The claims about the registry\<close>

text \<open>
  C3. A scan at clock reading \<open>now\<close> keeps exactly the entries whose tracker's \<open>elapsed\<close>
  does not exceed \<open>maxAgeMs\<close>, in their order, and dispatches one \<open>expired\<close> event for
  each entry it removes, carrying that entry's tracker; no tracker is removed twice, and the
  trackers themselves are left as they are.
\<close>

theorem expiry_scan_removes_exactly_the_expired:
  "let s = run acts (PosesTracker_new opts);
       too_old = (\<lambda>entry. maxAgeMs (options s) < elapsed (deref s (snd entry)) now);
       s' = expiry_tick s now
   in data s' = filter (\<lambda>entry. \<not> too_old entry) (data s) \<and>
      events s' = events s @ map (\<lambda>entry. Expired (snd entry)) (filter too_old (data s)) \<and>
      distinct (map snd (filter too_old (data s))) \<and>
      heap s' = heap s"
proof -
  have w: "wf (run acts (PosesTracker_new opts))" by (rule wf_reachable)
  then have d: "distinct (map fst (data (run acts (PosesTracker_new opts))))"
    and r: "distinct (map snd (data (run acts (PosesTracker_new opts))))"
    by (simp_all add: wf_def)
  show ?thesis
    unfolding Let_def using r by (simp add: expiry_tick_eq [OF d] distinct_map_filter)
qed

theorem expiry_scan_removes_exactly_the_expired_witness:
  "data (expiry_tick two_bodies 1200) = [(''cam2-5'', 1)] \<and>
   events (expiry_tick two_bodies 1200) = [Added 0, Added 1, Expired 0] \<and>
   data (expiry_tick two_bodies 1000) = data two_bodies"
proof -
  have a: "elapsed (deref two_bodies 0) 1200 = 1200" "elapsed (deref two_bodies (Suc 0)) 1200 = 700"
     "elapsed (deref two_bodies 0) 1000 = 1000" "elapsed (deref two_bodies (Suc 0)) 1000 = 500"
     "maxAgeMs (options two_bodies) = 1000"
    by (simp_all add: two_bodies_eq elapsed_def deref_def)
  have d: "data two_bodies = [(''cam1-5'', 0), (''cam2-5'', 1)]"
     "events two_bodies = [Added 0, Added 1]" by (simp_all add: two_bodies_eq)
  show ?thesis
    using expiry_scan_removes_exactly_the_expired
      [of "[Seen 0 (FromStr ''cam1'') (PoseObj (pose_of 5 1)),
            Seen 500 (FromStr ''cam2'') (PoseObj (pose_of 5 2))]" "with_maxAge 1000" 1200]
      expiry_scan_removes_exactly_the_expired
      [of "[Seen 0 (FromStr ''cam1'') (PoseObj (pose_of 5 1)),
            Seen 500 (FromStr ''cam2'') (PoseObj (pose_of 5 2))]" "with_maxAge 1000" 1000]
    unfolding two_bodies_def [symmetric] Let_def
    by (simp add: a d)
qed

text \<open>
  C4. Called with \<open>from\<close> undefined, or with \<open>pose\<close> undefined, \<open>seen\<close> throws its
  error and leaves the whole state as it was: the registry, the trackers, the events.
\<close>

theorem seen_rejects_undefined_arguments:
  "seen s now FromUndefined pose = (s, Inl FromIsUndefined) \<and>
   seen s now frm PoseUndefined =
     (s, Inl (if frm = FromUndefined then FromIsUndefined else PoseIsUndefined))"
  by (simp add: seen_def)

text \<open>
  C10. In every state the registry can reach, \<open>getValueByGuid\<close> returns a pose exactly
  when \<open>getTrackerByGuid\<close> returns a tracker, and then it is that tracker's \<open>last\<close>.
\<close>

theorem getValueByGuid_present_iff_tracker:
  "let s = run acts (PosesTracker_new opts)
   in (getValueByGuid s gid \<noteq> None) = (getTrackerByGuid s gid \<noteq> None) \<and>
      (\<forall>r. getTrackerByGuid s gid = Some r \<longrightarrow> getValueByGuid s gid = last_pose (deref s r))"
proof -
  let ?s = "run acts (PosesTracker_new opts)"
  have w: "wf ?s" by (rule wf_reachable)
  have "getValueByGuid ?s gid \<noteq> None" if "getTrackerByGuid ?s gid = Some r" for r
  proof -
    have "(gid, r) \<in> set (data ?s)"
      using that by (simp add: getTrackerByGuid_def Map_get_Some_mem)
    then have "last_pose (heap ?s ! r) \<noteq> None"
      using w by (auto simp: wf_def)
    then show ?thesis
      using that by (simp add: getValueByGuid_def getTrackerByGuid_def deref_def)
  qed
  then show ?thesis
    unfolding Let_def
    by (auto simp: getValueByGuid_def getTrackerByGuid_def split: option.splits)
qed

theorem getValueByGuid_present_iff_tracker_witness:
  "getTrackerByGuid two_bodies ''cam2-5'' = Some 1 \<and>
   getValueByGuid two_bodies ''cam2-5'' = Some (pose_of 5 2) \<and>
   getTrackerByGuid two_bodies ''cam3-5'' = None \<and>
   getValueByGuid two_bodies ''cam3-5'' = None"
proof -
  have t: "getTrackerByGuid two_bodies ''cam2-5'' = Some 1"
    "getTrackerByGuid two_bodies ''cam3-5'' = None"
    by (simp_all add: two_bodies_eq getTrackerByGuid_def Map_get_def)
  have l: "last_pose (deref two_bodies (Suc 0)) = Some (pose_of 5 2)"
    by (simp add: two_bodies_eq deref_def)
  show ?thesis
    using getValueByGuid_present_iff_tracker
      [of "[Seen 0 (FromStr ''cam1'') (PoseObj (pose_of 5 1)),
            Seen 500 (FromStr ''cam2'') (PoseObj (pose_of 5 2))]" "with_maxAge 1000" "''cam2-5''"]
      getValueByGuid_present_iff_tracker
      [of "[Seen 0 (FromStr ''cam1'') (PoseObj (pose_of 5 1)),
            Seen 500 (FromStr ''cam2'') (PoseObj (pose_of 5 2))]" "with_maxAge 1000" "''cam3-5''"]
    unfolding two_bodies_def [symmetric] Let_def
    by (simp add: t l)
qed

text \<open>
  C2. When a pair is not yet tracked, the first \<open>seen\<close> with it dispatches one \<open>added\<close>
  event carrying the tracker it has just created for that pair; a second \<open>seen\<close> with the
  same pair dispatches nothing, leaves that tracker's \<open>last\<close> at the second pose, and
  returns the same guid as the first.
\<close>

theorem seen_twice_adds_once:
  assumes "frm \<noteq> FromUndefined"
    and "pose_id_string p2 = pose_id_string p1"
    and "getTrackerByGuid s (make_guid frm (pose_id_string p1)) = None"
  shows "let gid = make_guid frm (pose_id_string p1);
             tp = length (heap s);
             first = seen s t1 frm (PoseObj p1);
             second = seen (fst first) t2 frm (PoseObj p2)
         in events (fst first) = events s @ [Added tp] \<and>
            getTrackerByGuid (fst first) gid = Some tp \<and>
            fromId (deref (fst first) tp) = frm \<and>
            poseId (deref (fst first) tp) = pose_id_string p1 \<and>
            events (fst second) = events (fst first) \<and>
            getTrackerByGuid (fst second) gid = Some tp \<and>
            last_pose (deref (fst second) tp) = Some p2 \<and>
            snd first = Inr gid \<and> snd second = Inr gid"
proof -
  let ?gid = "make_guid frm (pose_id_string p1)"
  let ?tp = "length (heap s)"
  let ?s1 = "s \<lparr> data := data s @ [(?gid, ?tp)],
          events := events s @ [Added ?tp],
          heap := heap s @ [PoseTracker_seen (PoseTracker_new frm (pose_id_string p1)) t1 p1] \<rparr>"
  have none: "Map_get (data s) ?gid = None"
    using assms(3) by (simp add: getTrackerByGuid_def)
  have first: "seen s t1 frm (PoseObj p1) = (?s1, Inr ?gid)"
    using seen_new [OF assms(1) none] .
  have known: "Map_get (data ?s1) (make_guid frm (pose_id_string p2)) = Some ?tp"
    using none by (simp add: assms(2) Map_get_append_fresh)
  have second: "seen ?s1 t2 frm (PoseObj p2) =
      (?s1 \<lparr> heap := (heap ?s1) [?tp := PoseTracker_seen (heap ?s1 ! ?tp) t2 p2] \<rparr>,
       Inr (make_guid frm (pose_id_string p2)))"
    using seen_known [OF assms(1) known] .
  show ?thesis
    unfolding Let_def first fst_conv snd_conv second
    using none
    by (simp add: assms(2) getTrackerByGuid_def Map_get_append_fresh deref_def
        PoseTracker_seen_def PoseTracker_new_def)
qed

theorem seen_twice_adds_once_witness:
  "events (fst (seen two_bodies 600 (FromStr ''cam3'') (PoseObj (pose_of 5 3))))
     = [Added 0, Added 1, Added 2] \<and>
   events (fst (seen (fst (seen two_bodies 600 (FromStr ''cam3'') (PoseObj (pose_of 5 3))))
       700 (FromStr ''cam3'') (PoseObj (pose_of 5 4)))) = [Added 0, Added 1, Added 2] \<and>
   last_pose (deref (fst (seen (fst (seen two_bodies 600 (FromStr ''cam3'') (PoseObj (pose_of 5 3))))
       700 (FromStr ''cam3'') (PoseObj (pose_of 5 4)))) 2) = Some (pose_of 5 4) \<and>
   snd (seen (fst (seen two_bodies 600 (FromStr ''cam3'') (PoseObj (pose_of 5 3))))
       700 (FromStr ''cam3'') (PoseObj (pose_of 5 4))) = Inr ''cam3-5''"
proof -
  have a: "FromStr ''cam3'' \<noteq> FromUndefined" by simp
  have b: "pose_id_string (pose_of 5 4) = pose_id_string (pose_of 5 3)"
    by (simp add: pose_id_string_def pose_of_def)
  have g: "make_guid (FromStr ''cam3'') (pose_id_string (pose_of 5 3)) = ''cam3-5''"
    by (simp add: eval_defs)
  have c: "getTrackerByGuid two_bodies (make_guid (FromStr ''cam3'') (pose_id_string (pose_of 5 3))) = None"
    unfolding g by (simp add: two_bodies_eq getTrackerByGuid_def Map_get_def)
  have h: "length (heap two_bodies) = 2" "events two_bodies = [Added 0, Added 1]"
    by (simp_all add: two_bodies_eq)
  show ?thesis
    using seen_twice_adds_once [OF a b c, of 600 700]
    unfolding Let_def g h by simp
qed

text \<open>
  C9. With \<open>from\<close> null and a pose whose id is defined, \<open>seen\<close> does not throw: it returns
  the guid \<open>null-\<close> followed by the id, the registry then holds under that guid a tracker
  whose \<open>last\<close> is the pose, and when the guid was not there before, the registry has
  grown by one entry and an \<open>added\<close> event was dispatched.
\<close>

theorem seen_accepts_null_from:
  assumes "pose_id p = Some n"
  shows "let gid = ''null-'' @ Number_toString n;
             s = run acts (PosesTracker_new opts);
             result = seen s now FromNull (PoseObj p)
         in snd result = Inr gid \<and>
            (\<exists>tp. getTrackerByGuid (fst result) gid = Some tp \<and>
                  last_pose (deref (fst result) tp) = Some p \<and>
                  seenAt (deref (fst result) tp) = now) \<and>
            (getTrackerByGuid s gid = None \<longrightarrow>
               size_prop (fst result) = Suc (size_prop s) \<and>
               events (fst result) = events s @ [Added (length (heap s))])"
proof -
  let ?s = "run acts (PosesTracker_new opts)"
  let ?gid = "''null-'' @ Number_toString n"
  have gid: "make_guid FromNull (pose_id_string p) = ?gid"
    by (simp add: make_guid_def pose_id_string_def assms)
  have nu: "FromNull \<noteq> FromUndefined" by simp
  have w: "wf ?s" by (rule wf_reachable)
  show ?thesis
  proof (cases "Map_get (data ?s) ?gid")
    case None
    have fresh: "Map_get (data ?s) (make_guid FromNull (pose_id_string p)) = None"
      using None by (simp add: gid)
    show ?thesis
      unfolding Let_def seen_new [OF nu fresh] gid
      using None
      by (simp add: getTrackerByGuid_def Map_get_append_fresh deref_def size_prop_def
          PoseTracker_seen_def)
  next
    case (Some tp)
    have known: "Map_get (data ?s) (make_guid FromNull (pose_id_string p)) = Some tp"
      using Some by (simp add: gid)
    have "(?gid, tp) \<in> set (data ?s)" using Some by (rule Map_get_Some_mem)
    then have tp: "tp < length (heap ?s)" using w by (auto simp: wf_def)
    show ?thesis
      unfolding Let_def seen_known [OF nu known] gid
      using Some tp
      by (simp add: getTrackerByGuid_def deref_def PoseTracker_seen_def)
  qed
qed

theorem seen_accepts_null_from_witness:
  "snd (seen two_bodies 600 FromNull (PoseObj (pose_of 7 3))) = Inr ''null-7'' \<and>
   size_prop (fst (seen two_bodies 600 FromNull (PoseObj (pose_of 7 3)))) = 3 \<and>
   events (fst (seen two_bodies 600 FromNull (PoseObj (pose_of 7 3)))) = [Added 0, Added 1, Added 2]"
proof -
  have a: "pose_id (pose_of 7 3) = Some (Whole 7)" by (simp add: pose_of_def)
  have n: "Number_toString (Whole 7) = ''7''" by (simp add: eval_defs)
  have c: "getTrackerByGuid two_bodies ''null-7'' = None"
    by (simp add: two_bodies_eq getTrackerByGuid_def Map_get_def)
  have h: "length (heap two_bodies) = 2" "events two_bodies = [Added 0, Added 1]"
    "size_prop two_bodies = 2"
    by (simp_all add: two_bodies_eq size_prop_def)
  show ?thesis
    using seen_accepts_null_from [OF a, of "[Seen 0 (FromStr ''cam1'') (PoseObj (pose_of 5 1)),
            Seen 500 (FromStr ''cam2'') (PoseObj (pose_of 5 2))]" "with_maxAge 1000" 600]
    unfolding two_bodies_def [symmetric] Let_def n
    by (simp add: c h)
qed

lemma first_separator_unique:
  "c \<notin> set xs \<Longrightarrow> c \<notin> set ys \<Longrightarrow> xs @ c # xs' = ys @ c # ys' \<Longrightarrow> xs = ys \<and> xs' = ys'"
proof (induction xs arbitrary: ys)
  case Nil
  then show ?case by (cases ys) auto
next
  case (Cons a xs)
  then show ?case by (cases ys) auto
qed


lemma make_guid_inj_rev:
  assumes "CHR ''-'' \<notin> set p1" "CHR ''-'' \<notin> set p2"
    and "make_guid (FromStr f1) p1 = make_guid (FromStr f2) p2"
  shows "f1 = f2 \<and> p1 = p2"
proof -
  have "rev (f1 @ CHR ''-'' # p1) = rev (f2 @ CHR ''-'' # p2)"
    using assms(3) by (simp add: make_guid_def)
  then have "rev p1 @ CHR ''-'' # rev f1 = rev p2 @ CHR ''-'' # rev f2" by simp
  moreover have "CHR ''-'' \<notin> set (rev p1)" "CHR ''-'' \<notin> set (rev p2)"
    using assms(1,2) by simp_all
  ultimately have "rev p1 = rev p2 \<and> rev f1 = rev f2"
    by (rule first_separator_unique [rotated 2])
  then show ?thesis by simp
qed



section \<open>Counting the registry after a sequence of calls\<close>

lemma keys_after_seen:
  assumes "frm \<noteq> FromUndefined"
  shows "set (map fst (data (fst (seen s now frm (PoseObj p)))))
     = insert (make_guid frm (pose_id_string p)) (set (map fst (data s)))"
proof (cases "Map_get (data s) (make_guid frm (pose_id_string p))")
  case None
  show ?thesis by (simp add: seen_new [OF assms None])
next
  case (Some r)
  have "(make_guid frm (pose_id_string p), r) \<in> set (data s)"
    using Some by (rule Map_get_Some_mem)
  then have "make_guid frm (pose_id_string p) \<in> fst ` set (data s)" by force
  then show ?thesis by (auto simp: seen_known [OF assms Some])
qed

lemma keys_after_seen_calls:
  "set (map fst (data (run (seen_calls cs) s))) = set (map fst (data s)) \<union> set (observed_guids cs)"
proof (induction cs arbitrary: s)
  case Nil
  show ?case by (simp add: run_def seen_calls_def observed_guids_def)
next
  case (Cons c cs)
  obtain t f p where c: "c = (t, f, p)" by (cases c)
  have step: "run (seen_calls (c # cs)) s = run (seen_calls cs) (fst (seen s t (FromStr f) (PoseObj p)))"
    by (simp add: run_def seen_calls_def c)
  have og: "set (observed_guids (c # cs))
      = insert (make_guid (FromStr f) (pose_id_string p)) (set (observed_guids cs))"
    by (simp add: observed_guids_def c)
  show ?case
    unfolding step Cons.IH og
    using keys_after_seen [of "FromStr f" s t p] by auto
qed

lemma size_is_number_of_keys: "wf s \<Longrightarrow> size_prop s = card (set (map fst (data s)))"
  by (simp add: wf_def size_prop_def distinct_card del: set_map)

lemma size_after_seen_calls:
  "size_prop (run (seen_calls cs) (PosesTracker_new opts)) = card (set (observed_guids cs))"
proof -
  have "set (map fst (data (run (seen_calls cs) (PosesTracker_new opts)))) = set (observed_guids cs)"
    unfolding keys_after_seen_calls by (simp add: PosesTracker_new_def)
  then show ?thesis
    using size_is_number_of_keys [OF wf_reachable] by metis
qed

lemma observed_guids_from_pairs:
  "observed_guids cs = map (\<lambda>pr. make_guid (FromStr (fst pr)) (snd pr)) (observed_pairs cs)"
  by (simp add: observed_guids_def observed_pairs_def case_prod_unfold)

lemma guids_inj_on_pairs:
  assumes "\<forall>c \<in> set cs. CHR ''-'' \<notin> set (pose_id_string (snd (snd c)))"
  shows "inj_on (\<lambda>pr. make_guid (FromStr (fst pr)) (snd pr)) (set (observed_pairs cs))"
proof (rule inj_onI)
  fix x y
  assume x: "x \<in> set (observed_pairs cs)" and y: "y \<in> set (observed_pairs cs)"
    and eq: "make_guid (FromStr (fst x)) (snd x) = make_guid (FromStr (fst y)) (snd y)"
  have nd: "CHR ''-'' \<notin> set (snd z)" if "z \<in> set (observed_pairs cs)" for z
    using that assms by (auto simp: observed_pairs_def)
  have "fst x = fst y \<and> snd x = snd y"
    using nd [OF x] nd [OF y] eq by (rule make_guid_inj_rev)
  then show "x = y" by (simp add: prod_eq_iff)
qed

text \<open>
  C1, as amended. After any sequence of well-typed \<open>seen\<close> calls on a new registry, with no
  scan and no \<open>clear\<close> in between, \<open>size\<close> is the number of distinct guids
  \<open>fromId + '-' + poseId\<close> observed; when no \<open>poseId\<close> string holds the separator, that
  is the number of distinct pairs observed; and a further \<open>seen\<close> with a pair already
  observed leaves \<open>size\<close> as it is.
\<close>

theorem size_counts_distinct_guids:
  "let s = run (seen_calls cs) (PosesTracker_new opts)
   in size_prop s = card (set (observed_guids cs)) \<and>
      ((\<forall>c \<in> set cs. CHR ''-'' \<notin> set (pose_id_string (snd (snd c)))) \<longrightarrow>
         size_prop s = card (set (observed_pairs cs))) \<and>
      ((f, pose_id_string p) \<in> set (observed_pairs cs) \<longrightarrow>
         size_prop (fst (seen s t (FromStr f) (PoseObj p))) = size_prop s)"
proof -
  let ?s = "run (seen_calls cs) (PosesTracker_new opts)"
  have a: "size_prop ?s = card (set (observed_guids cs))" by (rule size_after_seen_calls)
  have b: "size_prop ?s = card (set (observed_pairs cs))"
    if "\<forall>c \<in> set cs. CHR ''-'' \<notin> set (pose_id_string (snd (snd c)))"
  proof -
    have "card (set (observed_guids cs))
        = card ((\<lambda>pr. make_guid (FromStr (fst pr)) (snd pr)) ` set (observed_pairs cs))"
      by (simp add: observed_guids_from_pairs)
    also have "\<dots> = card (set (observed_pairs cs))"
      using guids_inj_on_pairs [OF that] by (rule card_image)
    finally show ?thesis using a by simp
  qed
  have c: "size_prop (fst (seen ?s t (FromStr f) (PoseObj p))) = size_prop ?s"
    if pr: "(f, pose_id_string p) \<in> set (observed_pairs cs)"
  proof -
    have "run (seen_calls (cs @ [(t, f, p)])) (PosesTracker_new opts)
        = fst (seen ?s t (FromStr f) (PoseObj p))"
      by (simp add: run_def seen_calls_def)
    then have "size_prop (fst (seen ?s t (FromStr f) (PoseObj p)))
        = card (set (observed_guids (cs @ [(t, f, p)])))"
      using size_after_seen_calls [of "cs @ [(t, f, p)]" opts] by simp
    also have "set (observed_guids (cs @ [(t, f, p)])) = set (observed_guids cs)"
    proof -
      obtain t' p' where m: "(t', f, p') \<in> set cs" and e: "pose_id_string p' = pose_id_string p"
        using pr by (auto simp: observed_pairs_def)
      have "make_guid (FromStr f) (pose_id_string p') \<in> set (observed_guids cs)"
        using m by (force simp: observed_guids_def)
      then have "make_guid (FromStr f) (pose_id_string p) \<in> set (observed_guids cs)"
        by (simp add: e)
      moreover have "set (observed_guids (cs @ [(t, f, p)]))
          = insert (make_guid (FromStr f) (pose_id_string p)) (set (observed_guids cs))"
        by (simp add: observed_guids_def)
      ultimately show ?thesis by (simp add: insert_absorb)
    qed
    finally show ?thesis using a by simp
  qed
  show ?thesis unfolding Let_def using a b c by blast
qed

theorem size_counts_distinct_guids_witness:
  "size_prop (run (seen_calls [(0, ''cam-1'', pose_of 5 1), (3, ''cam-2'', pose_of 5 2),
       (5, ''cam-2'', half_id_pose), (7, ''cam-1'', pose_of 5 3)]) (PosesTracker_new no_options)) = 3 \<and>
   card (set (observed_pairs [(0, ''cam-1'', pose_of 5 1), (3, ''cam-2'', pose_of 5 2),
       (5, ''cam-2'', half_id_pose), (7, ''cam-1'', pose_of 5 3)])) = 3 \<and>
   size_prop (fst (seen (run (seen_calls [(0, ''cam-1'', pose_of 5 1), (3, ''cam-2'', pose_of 5 2),
       (5, ''cam-2'', half_id_pose), (7, ''cam-1'', pose_of 5 3)]) (PosesTracker_new no_options))
       9 (FromStr ''cam-2'') (PoseObj (pose_of 5 4)))) = 3"
proof -
  let ?cs = "[(0, ''cam-1'', pose_of 5 1), (3, ''cam-2'', pose_of 5 2),
      (5, ''cam-2'', half_id_pose), (7, ''cam-1'', pose_of 5 3)]"
  have h: "\<forall>c \<in> set ?cs. CHR ''-'' \<notin> set (pose_id_string (snd (snd c)))"
    by (simp add: eval_defs half_id_pose_def)
  have n: "card (set (observed_pairs ?cs)) = 3"
    by (simp add: observed_pairs_def eval_defs half_id_pose_def card_insert_if)
  have m: "(''cam-2'', pose_id_string (pose_of 5 4)) \<in> set (observed_pairs ?cs)"
    by (simp add: observed_pairs_def pose_id_string_def pose_of_def)
  have "size_prop (run (seen_calls ?cs) (PosesTracker_new no_options)) = 3 \<and>
      size_prop (fst (seen (run (seen_calls ?cs) (PosesTracker_new no_options))
        9 (FromStr ''cam-2'') (PoseObj (pose_of 5 4)))) = 3"
    using size_counts_distinct_guids [where cs = ?cs and opts = no_options and f = "''cam-2''"
        and p = "pose_of 5 4" and t = 9] h m
    unfolding Let_def n by metis
  then show ?thesis using n by simp
qed

text \<open>
  C1 as stated fails: the sender \<open>a-\<close> with pose id 1 and the sender \<open>a\<close> with pose id -1
  are two pairs with the one guid \<open>a--1\<close>, so the second call finds the first one's tracker.
\<close>

theorem size_distinct_pairs_counterexample:
  "size_prop (run (seen_calls [(0, ''a-'', pose_of 1 0), (1, ''a'', pose_of (- 1) 0)])
      (PosesTracker_new no_options)) = 1 \<and>
   card (set (observed_pairs [(0, ''a-'', pose_of 1 0), (1, ''a'', pose_of (- 1) 0)])) = 2"
  by (simp add: seen_calls_def observed_pairs_def size_prop_def eval_defs card_insert_if)

section \<open>Reading the generators\<close>

lemma consume_Yielding:
  assumes "\<And>s xs. nxt s (Yielding xs) = yield_from xs"
  shows "consume nxt (Yielding xs) s ms = take (length ms) xs"
proof (induction ms arbitrary: xs s)
  case Nil
  show ?case by simp
next
  case (Cons acts ms)
  show ?case by (cases xs) (simp_all add: assms Cons.IH)
qed

lemma consume_NotStarted:
  assumes "\<And>s xs. nxt s (Yielding xs) = yield_from xs"
    and "nxt s NotStarted = yield_from xs"
  shows "consume nxt NotStarted s ms = take (length ms) xs"
proof (cases ms)
  case Nil
  then show ?thesis by simp
next
  case (Cons acts rest)
  show ?thesis
    by (cases xs) (simp_all add: Cons assms(2) consume_Yielding [of nxt, OF assms(1)])
qed

lemma consume_getTrackers:
  "consume getTrackers_next NotStarted s ms = take (length ms) (getTrackers s)"
  by (rule consume_NotStarted) (simp_all add: getTrackers_next_def)

lemma consume_getTrackersByAge:
  "consume (getTrackersByAge_next now) NotStarted s ms = take (length ms) (getTrackersByAge s now)"
  by (rule consume_NotStarted) (simp_all add: getTrackersByAge_next_def)

lemma consume_getSenderIds:
  "consume getSenderIds_next NotStarted s ms = take (length ms) (getSenderIds s)"
  by (rule consume_NotStarted) (simp_all add: getSenderIds_next_def)

text \<open>Generators that yield \<open>tracker.last\<close>, read when yielded.\<close>

lemma consume_last_Yielding:
  assumes "\<And>s xs. nxt s (Yielding xs) =
      (case yield_from xs of (None, g') \<Rightarrow> (None, g')
       | (Some tracker, g') \<Rightarrow> (Some (last_pose (deref s tracker)), g'))"
  shows "consume nxt (Yielding xs) s ms
     = map (\<lambda>(tracker, st). last_pose (deref st tracker)) (zip xs (states_at s ms))"
proof (induction ms arbitrary: xs s)
  case Nil
  show ?case by simp
next
  case (Cons acts ms)
  show ?case by (cases xs) (simp_all add: assms Cons.IH)
qed

lemma consume_last_NotStarted:
  assumes "\<And>s xs. nxt s (Yielding xs) =
      (case yield_from xs of (None, g') \<Rightarrow> (None, g')
       | (Some tracker, g') \<Rightarrow> (Some (last_pose (deref s tracker)), g'))"
    and "nxt s NotStarted =
      (case yield_from xs of (None, g') \<Rightarrow> (None, g')
       | (Some tracker, g') \<Rightarrow> (Some (last_pose (deref s tracker)), g'))"
  shows "consume nxt NotStarted s ms
     = map (\<lambda>(tracker, st). last_pose (deref st tracker)) (zip xs (states_at s ms))"
proof (cases ms)
  case Nil
  then show ?thesis by simp
next
  case (Cons acts rest)
  show ?thesis
    by (cases xs) (simp_all add: Cons assms(2) consume_last_Yielding [of nxt, OF assms(1)])
qed

lemma consume_getValues:
  "consume getValues_next NotStarted s ms
     = map (\<lambda>(tracker, st). last_pose (deref st tracker)) (zip (getTrackers s) (states_at s ms))"
  by (rule consume_last_NotStarted) (simp_all add: getValues_next_def)

lemma consume_getValuesByAge:
  "consume (getValuesByAge_next now) NotStarted s ms
     = map (\<lambda>(tracker, st). last_pose (deref st tracker))
         (zip (getTrackersByAge s now) (states_at s ms))"
  by (rule consume_last_NotStarted)
     (simp_all add: getValuesByAge_next_def getTrackersByAge_next_def)

lemma states_at_quiet: "states_at s (replicate n []) = replicate n s"
  by (induction n) (simp_all add: run_def)

lemma zip_replicate_right: "length xs \<le> n \<Longrightarrow> map f (zip xs (replicate n s)) = map (\<lambda>x. f (x, s)) xs"
proof (induction xs arbitrary: n)
  case Nil
  show ?case by simp
next
  case (Cons x xs)
  then obtain m where "n = Suc m" by (cases n) auto
  with Cons show ?case by simp
qed

lemma read_all_getTrackers: "read_all getTrackers_next s = getTrackers s"
  unfolding read_all_def call_generator_def consume_getTrackers
  by (simp add: getTrackers_def)

lemma read_all_getTrackersByAge: "read_all (getTrackersByAge_next now) s = getTrackersByAge s now"
  unfolding read_all_def call_generator_def consume_getTrackersByAge
  by (simp add: getTrackersByAge_def)

lemma read_all_getValuesByAge: "read_all (getValuesByAge_next now) s = getValuesByAge s now"
proof -
  have len: "length (getTrackersByAge s now) \<le> Suc (length (data s))"
    by (simp add: getTrackersByAge_def)
  have "read_all (getValuesByAge_next now) s
      = map (\<lambda>(tracker, st). last_pose (deref st tracker))
          (zip (getTrackersByAge s now) (replicate (Suc (length (data s))) s))"
    unfolding read_all_def call_generator_def consume_getValuesByAge states_at_quiet ..
  also have "\<dots> = map (\<lambda>tracker. last_pose (deref s tracker)) (getTrackersByAge s now)"
    using len by (subst zip_replicate_right) simp_all
  finally show ?thesis by (simp add: getValuesByAge_def)
qed

lemma read_all_getValues: "read_all getValues_next s = getValues s"
proof -
  have len: "length (getTrackers s) \<le> Suc (length (data s))"
    by (simp add: getTrackers_def)
  have "read_all getValues_next s
      = map (\<lambda>(tracker, st). last_pose (deref st tracker))
          (zip (getTrackers s) (replicate (Suc (length (data s))) s))"
    unfolding read_all_def call_generator_def consume_getValues states_at_quiet ..
  also have "\<dots> = map (\<lambda>tracker. last_pose (deref s tracker)) (getTrackers s)"
    using len by (subst zip_replicate_right) simp_all
  finally show ?thesis by (simp add: getValues_def getTrackers_def)
qed

text \<open>
  C5. Read to the end with nothing running in between, \<open>getTrackersByAge\<close> yields the
  registry's trackers, each as often as the registry holds it, in non-decreasing order of
  \<open>elapsed\<close>; and \<open>getValuesByAge\<close> yields the \<open>last\<close> of those trackers in that order.
\<close>

theorem getTrackersByAge_sorted_and_complete:
  "let trackers = read_all (getTrackersByAge_next now) s
   in mset trackers = mset (map snd (data s)) \<and>
      sorted (map (\<lambda>tracker. elapsed (deref s tracker) now) trackers) \<and>
      read_all (getValuesByAge_next now) s = map (\<lambda>tracker. last_pose (deref s tracker)) trackers"
  unfolding Let_def read_all_getTrackersByAge read_all_getValuesByAge
  by (simp add: getTrackersByAge_def getValuesByAge_def)

theorem getTrackersByAge_sorted_and_complete_witness:
  "read_all (getTrackersByAge_next 600) two_bodies = [1, 0] \<and>
   map (\<lambda>tracker. elapsed (deref two_bodies tracker) 600) [1, 0] = [100, 600] \<and>
   read_all (getValuesByAge_next 600) two_bodies = [Some (pose_of 5 2), Some (pose_of 5 1)]"
proof -
  have "getTrackersByAge two_bodies 600 = [1, 0]"
    by (simp add: getTrackersByAge_def two_bodies_eq deref_def elapsed_def)
  then have a: "read_all (getTrackersByAge_next 600) two_bodies = [1, 0]"
    by (simp add: read_all_getTrackersByAge)
  have b: "map (\<lambda>tracker. elapsed (deref two_bodies tracker) 600) [1, 0] = [100, 600]"
    "map (\<lambda>tracker. last_pose (deref two_bodies tracker)) [1, 0]
       = [Some (pose_of 5 2), Some (pose_of 5 1)]"
    by (simp_all add: two_bodies_eq deref_def elapsed_def)
  show ?thesis
    using getTrackersByAge_sorted_and_complete [of 600 two_bodies]
    unfolding Let_def a b by simp
qed

section \<open>Reading a generator while the registry changes\<close>

lemma fromId_after_tracker_seen:
  "fromId (xs [i := PoseTracker_seen (xs ! i) now p] ! r) = fromId (xs ! r)"
proof (cases "i < length xs")
  case True
  then show ?thesis by (simp add: nth_list_update PoseTracker_seen_def)
next
  case False
  then show ?thesis by (simp add: list_update_beyond)
qed

lemma heap_after_seen:
  assumes "r < length (heap s)"
  shows "r < length (heap (fst (seen s now frm pose))) \<and>
         fromId (heap (fst (seen s now frm pose)) ! r) = fromId (heap s ! r)"
proof (cases "\<exists>e. snd (seen s now frm pose) = Inl e")
  case True
  then show ?thesis using assms seen_failed by metis
next
  case False
  then obtain p where p: "pose = PoseObj p" and f: "frm \<noteq> FromUndefined"
    by (cases pose; cases "frm = FromUndefined") (auto simp: seen_def)
  show ?thesis
  proof (cases "Map_get (data s) (make_guid frm (pose_id_string p))")
    case None
    show ?thesis
      using assms by (simp add: p seen_new [OF f None] nth_append)
  next
    case (Some tp)
    show ?thesis
      using assms by (simp add: p seen_known [OF f Some] fromId_after_tracker_seen)
  qed
qed

lemma heap_after_tick: "heap (expiry_tick s now) = heap s"
  by (simp add: expiry_tick_def Let_def foldl_expire_entry)

lemma heap_after_action:
  assumes "r < length (heap s)"
  shows "r < length (heap (apply_action s a)) \<and>
         fromId (heap (apply_action s a) ! r) = fromId (heap s ! r)"
  using assms by (cases a) (simp_all add: heap_after_seen heap_after_tick clear_def)

lemma heap_after_run:
  "r < length (heap s) \<Longrightarrow>
   r < length (heap (run acts s)) \<and> fromId (heap (run acts s) ! r) = fromId (heap s ! r)"
proof (induction acts arbitrary: s)
  case Nil
  then show ?case by (simp add: run_def)
next
  case (Cons a acts)
  have step: "run (a # acts) s = run acts (apply_action s a)" by (simp add: run_def)
  show ?case
    unfolding step using Cons.IH [of "apply_action s a"] heap_after_action [OF Cons.prems, of a]
    by simp
qed

lemma filter_after_dropWhile: "filter P (dropWhile (\<lambda>x. \<not> P x) xs) = filter P xs"
  by (induction xs) simp_all

lemma consume_getFromSender_Yielding:
  assumes "\<forall>r \<in> set xs. r < length (heap s)"
  shows "consume (getFromSender_next senderId) (Yielding xs) s ms
     = take (length ms) (filter (\<lambda>r. fromId (deref s r) = senderId) xs)"
  using assms
proof (induction ms arbitrary: xs s)
  case Nil
  show ?case by simp
next
  case (Cons acts ms)
  let ?P = "\<lambda>r. fromId (deref s r) = senderId"
  have nxt: "getFromSender_next senderId s (Yielding xs) = yield_from (dropWhile (\<lambda>r. \<not> ?P r) xs)"
    by (simp add: getFromSender_next_def)
  show ?case
  proof (cases "dropWhile (\<lambda>r. \<not> ?P r) xs")
    case Nil
    then have "filter ?P xs = []"
      using filter_after_dropWhile [of ?P xs] by simp
    moreover have "consume (getFromSender_next senderId) (Yielding xs) s (acts # ms) = []"
      unfolding consume.simps nxt Nil by simp
    ultimately show ?thesis by simp
  next
    case (Cons r rest)
    have sub: "set rest \<subseteq> set xs"
      using set_dropWhileD [of _ "\<lambda>r. \<not> ?P r" xs] Cons by auto
    have r: "?P r" using hd_dropWhile [of "\<lambda>r. \<not> ?P r" xs] Cons by simp
    have split: "filter ?P xs = r # filter ?P rest"
      using filter_after_dropWhile [of ?P xs] Cons r by simp
    have valid: "\<forall>x \<in> set rest. x < length (heap (run acts s))"
      using sub Cons.prems heap_after_run by blast
    have same: "filter (\<lambda>x. fromId (deref (run acts s) x) = senderId) rest = filter ?P rest"
    proof (rule filter_cong [OF refl])
      fix x assume "x \<in> set rest"
      then have "x < length (heap s)" using sub Cons.prems by auto
      then show "(fromId (deref (run acts s) x) = senderId) = (fromId (deref s x) = senderId)"
        using heap_after_run [of x s acts] by (simp add: deref_def)
    qed
    have "consume (getFromSender_next senderId) (Yielding xs) s (acts # ms)
        = r # consume (getFromSender_next senderId) (Yielding rest) (run acts s) ms"
      unfolding consume.simps nxt Cons by simp
    then show ?thesis
      by (simp add: Cons.IH [OF valid] same split)
  qed
qed

lemma consume_getFromSender:
  assumes "wf s"
  shows "consume (getFromSender_next senderId) NotStarted s ms
     = take (length ms) (getFromSender s senderId)"
proof (cases ms)
  case Nil
  then show ?thesis by simp
next
  case (Cons acts rest)
  have valid: "\<forall>r \<in> set (getTrackers s). r < length (heap s)"
    using assms by (auto simp: wf_def getTrackers_def)
  have start: "getFromSender_next senderId s NotStarted
      = getFromSender_next senderId s (Yielding (getTrackers s))"
    by (simp add: getFromSender_next_def)
  have "consume (getFromSender_next senderId) NotStarted s (acts # rest)
      = consume (getFromSender_next senderId) (Yielding (getTrackers s)) s (acts # rest)"
    by (simp add: start)
  then show ?thesis
    unfolding Cons consume_getFromSender_Yielding [OF valid]
    by (simp add: getFromSender_def getTrackers_def)
qed

text \<open>
  C7, as amended. Each of \<open>getTrackers\<close>, \<open>getTrackersByAge\<close>, \<open>getValues\<close>,
  \<open>getFromSender\<close> and \<open>getSenderIds\<close> copies the registry's entries at its first
  \<open>next()\<close>, whatever the registry held when the generator function was called. From
  then on, whatever \<open>seen\<close>, \<open>clear\<close> and scans run between the \<open>next()\<close> calls, the
  trackers (or sender ids) yielded are those of that copy, in its order; \<open>getValues\<close> yields
  for each tracker of the copy the \<open>last\<close> it has at the moment it is yielded.
\<close>

theorem enumerations_snapshot_at_first_next:
  "let s = run acts (PosesTracker_new opts)
   in consume getTrackers_next (call_generator c) s ms = take (length ms) (getTrackers s) \<and>
      consume (getTrackersByAge_next now) (call_generator c) s ms
        = take (length ms) (getTrackersByAge s now) \<and>
      consume getValues_next (call_generator c) s ms
        = map (\<lambda>(tracker, st). last_pose (deref st tracker)) (zip (getTrackers s) (states_at s ms)) \<and>
      consume (getFromSender_next senderId) (call_generator c) s ms
        = take (length ms) (getFromSender s senderId) \<and>
      consume getSenderIds_next (call_generator c) s ms = take (length ms) (getSenderIds s)"
  unfolding Let_def call_generator_def
  using consume_getTrackers consume_getTrackersByAge consume_getValues
    consume_getFromSender [OF wf_reachable] consume_getSenderIds
  by simp

lemma run_on_two_bodies:
  "run [cam2_again, Clear, cam3_new] two_bodies =
   \<lparr> data = [(''cam3-5'', 2)],
    options = \<lparr> maxAgeMs = 1000, resetAfterSamples = 0, sampleLimit = 100, storeIntermediate = False \<rparr>,
    events = [Added 0, Added 1, Added 2],
    heap = [\<lparr> fromId = FromStr ''cam1'', poseId = ''5'', guid = ''cam1-5'',
              last_pose = Some (pose_of 5 1), seenAt = 0 \<rparr>,
            \<lparr> fromId = FromStr ''cam2'', poseId = ''5'', guid = ''cam2-5'',
              last_pose = Some (pose_of 5 9), seenAt = 600 \<rparr>,
            \<lparr> fromId = FromStr ''cam3'', poseId = ''5'', guid = ''cam3-5'',
              last_pose = Some (pose_of 5 3), seenAt = 700 \<rparr>] \<rparr>"
  by (simp add: two_bodies_eq cam2_again_def cam3_new_def clear_def eval_defs)

theorem enumerations_snapshot_at_first_next_witness:
  "consume getTrackers_next (call_generator two_bodies) two_bodies
      [[cam2_again, Clear, cam3_new], []] = [0, 1] \<and>
   consume getValues_next (call_generator two_bodies) two_bodies
      [[cam2_again, Clear, cam3_new], []] = [Some (pose_of 5 1), Some (pose_of 5 9)]"
proof -
  have t: "getTrackers two_bodies = [0, 1]"
    by (simp add: getTrackers_def two_bodies_eq)
  have st: "states_at two_bodies [[cam2_again, Clear, cam3_new], []]
      = [two_bodies, run [cam2_again, Clear, cam3_new] two_bodies]"
    by simp
  have l: "last_pose (deref two_bodies 0) = Some (pose_of 5 1)"
    "last_pose (deref (run [cam2_again, Clear, cam3_new] two_bodies) (Suc 0)) = Some (pose_of 5 9)"
    by (simp_all add: run_on_two_bodies) (simp add: two_bodies_eq deref_def, simp add: deref_def)
  show ?thesis
    using enumerations_snapshot_at_first_next
      [where c = two_bodies and acts = "[Seen 0 (FromStr ''cam1'') (PoseObj (pose_of 5 1)),
            Seen 500 (FromStr ''cam2'') (PoseObj (pose_of 5 2))]" and opts = "with_maxAge 1000"
          and ms = "[[cam2_again, Clear, cam3_new], []]"]
    unfolding two_bodies_def [symmetric] Let_def t st
    by (simp add: l)
qed

text \<open>
  C7 as stated fails twice. A generator called on an empty registry and read after a
  \<open>seen\<close> yields the new tracker, which the registry did not hold at call time. And a
  \<open>seen\<close> between the first and the second \<open>next()\<close> of \<open>getValues\<close> changes the pose
  that the second one yields.
\<close>

theorem snapshot_at_call_time_counterexample:
  "getTrackers (PosesTracker_new no_options) = [] \<and>
   consume getTrackers_next (call_generator (PosesTracker_new no_options))
      (run [Seen 0 (FromStr ''cam1'') (PoseObj (pose_of 5 1))] (PosesTracker_new no_options))
      [[]] = [0] \<and>
   getValues two_bodies = [Some (pose_of 5 1), Some (pose_of 5 2)] \<and>
   consume getValues_next (call_generator two_bodies) two_bodies [[cam2_again], []]
     = [Some (pose_of 5 1), Some (pose_of 5 9)]"
  by (simp add: getTrackers_def getValues_def getTrackers_next_def getValues_next_def
      call_generator_def two_bodies_eq cam2_again_def eval_defs)

end
